theory Spec2Isabelle
  imports Main
begin

section \<open>Data model\<close>

text \<open>
  The converter works on the element tree built by \<^verbatim>\<open>xml.etree.ElementTree\<close>.
  An element has a tag, an attribute dictionary (kept as an association list in
  document order, since \<^verbatim>\<open>_cvt_rfc_attr\<close> iterates over it), an optional
  text before its first child, an optional tail after its end tag, and its children.
  Strings are lists of characters; a character stands for one code point, so the
  model covers the code points below 256.
\<close>

datatype elt = Elt (tag: string) (attrib: "(string \<times> string) list")
  (text_of: "string option") (tail: "string option") (children: "elt list")

text \<open>The exceptions the converter can raise.\<close>

datatype error =
  KeyError | AssertionError | AttributeError | TypeError | IndexError | UnboundLocalError

section \<open>Strings\<close>

text \<open>\<^verbatim>\<open>str.isspace\<close> on the code points below 256.\<close>

definition is_space :: "char \<Rightarrow> bool" where
  "is_space c \<longleftrightarrow> c \<in> set [CHR 0x09, CHR 0x0A, CHR 0x0B, CHR 0x0C, CHR 0x0D,
     CHR 0x1C, CHR 0x1D, CHR 0x1E, CHR 0x1F, CHR 0x20, CHR 0x85, CHR 0xA0]"

definition lstrip :: "string \<Rightarrow> string" where
  "lstrip s = dropWhile is_space s"

definition rstrip :: "string \<Rightarrow> string" where
  "rstrip s = rev (dropWhile is_space (rev s))"

definition strip :: "string \<Rightarrow> string" where
  "strip s = rstrip (lstrip s)"

text \<open>\<^verbatim>\<open>sep.join(xs)\<close>.\<close>

fun join :: "string \<Rightarrow> string list \<Rightarrow> string" where
  "join sep [] = []"
| "join sep [x] = x"
| "join sep (x # y # ys) = x @ sep @ join sep (y # ys)"

text \<open>\<^verbatim>\<open>s.endswith(t)\<close>.\<close>

definition endswith :: "string \<Rightarrow> string \<Rightarrow> bool" where
  "endswith s t \<longleftrightarrow> length t \<le> length s \<and> drop (length s - length t) s = t"

text \<open>\<^verbatim>\<open>t in s\<close> for strings: \<^verbatim>\<open>t\<close> occurs in \<^verbatim>\<open>s\<close>.\<close>

fun contains :: "string \<Rightarrow> string \<Rightarrow> bool" where
  "contains [] t = (t = [])"
| "contains (c # cs) t = (take (length t) (c # cs) = t \<or> contains cs t)"

section \<open>Element access\<close>

text \<open>\<^verbatim>\<open>elt.attrib.get(k)\<close>, \<^verbatim>\<open>elt.attrib.get(k, "")\<close> and \<^verbatim>\<open>k in elt.attrib\<close>.\<close>

definition attr_get :: "elt \<Rightarrow> string \<Rightarrow> string option" where
  "attr_get e k = map_of (attrib e) k"

definition attr_get_d :: "elt \<Rightarrow> string \<Rightarrow> string" where
  "attr_get_d e k = (case attr_get e k of None \<Rightarrow> [] | Some v \<Rightarrow> v)"

text \<open>\<^verbatim>\<open>elt.find(name)\<close>: the first child with that tag.\<close>

definition find_child :: "elt \<Rightarrow> string \<Rightarrow> elt option" where
  "find_child e name = List.find (\<lambda>c. tag c = name) (children e)"

text \<open>\<^verbatim>\<open>e.text.strip()\<close>, which raises when the text is absent.\<close>

definition text_strip :: "elt \<Rightarrow> error + string" where
  "text_strip e = (case text_of e of None \<Rightarrow> Inl AttributeError | Some s \<Rightarrow> Inr (strip s))"

text \<open>
  \<^verbatim>\<open>root.findall(".//tag")\<close>: every proper descendant with that tag, in
  document order.
\<close>

fun descendants :: "elt \<Rightarrow> elt list" where
  "descendants (Elt t a x y cs) = concat (map (\<lambda>c. c # descendants c) cs)"

definition findall_desc :: "elt \<Rightarrow> string \<Rightarrow> elt list" where
  "findall_desc root name = filter (\<lambda>e. tag e = name) (descendants root)"

section \<open>Reference collector\<close>

text \<open>
  \<^verbatim>\<open>glb.sec_refs\<close> is a dictionary from anchors to counts. The first loop of
  \<^verbatim>\<open>gather_section_refs\<close> stores 0 for every non-empty section anchor, the
  second adds one for every xref whose non-empty target is a key.
\<close>

type_synonym ref_table = "string \<rightharpoonup> int"

definition note_section :: "ref_table \<Rightarrow> elt \<Rightarrow> ref_table" where
  "note_section sr e = (let anchor = attr_get_d e ''anchor'' in
     if anchor \<noteq> [] then sr(anchor \<mapsto> 0) else sr)"

definition note_xref :: "ref_table \<Rightarrow> elt \<Rightarrow> ref_table" where
  "note_xref sr e = (let target = attr_get_d e ''target'' in
     if target \<noteq> [] then
       (case sr target of None \<Rightarrow> sr | Some n \<Rightarrow> sr(target \<mapsto> n + 1))
     else sr)"

definition gather_section_refs :: "elt \<Rightarrow> ref_table \<Rightarrow> ref_table" where
  "gather_section_refs root sr =
     foldl note_xref (foldl note_section sr (findall_desc root ''section''))
       (findall_desc root ''xref'')"

text \<open>The non-empty anchors of a list of elements: the keys the first loop writes.\<close>

definition anchors :: "elt list \<Rightarrow> string set" where
  "anchors es = {a. a \<noteq> [] \<and> a \<in> (\<lambda>e. attr_get_d e ''anchor'') ` set es}"

section \<open>Results and loops\<close>

text \<open>
  A call either raises (\<open>Inl\<close>) or returns (\<open>Inr\<close>); \<open>rbind\<close> runs the rest of a
  function body after a call that returned, and \<open>for_each\<close> is a \<^verbatim>\<open>for\<close> loop
  whose body may raise.
\<close>

definition rbind :: "error + 'a \<Rightarrow> ('a \<Rightarrow> error + 'b) \<Rightarrow> error + 'b" where
  "rbind m f = (case m of Inl e \<Rightarrow> Inl e | Inr x \<Rightarrow> f x)"

fun for_each :: "('a \<Rightarrow> 's \<Rightarrow> error + 's) \<Rightarrow> 'a list \<Rightarrow> 's \<Rightarrow> error + 's" where
  "for_each body [] s = Inr s"
| "for_each body (x # xs) s = (case body x s of Inl e \<Rightarrow> Inl e | Inr s' \<Rightarrow> for_each body xs s')"

section \<open>Attribute lines\<close>

text \<open>\<^verbatim>\<open>add_elt_attr(elt, attr, name, lines)\<close>.\<close>

definition add_elt_attr :: "elt \<Rightarrow> string \<Rightarrow> string \<Rightarrow> string list \<Rightarrow> string list" where
  "add_elt_attr e attr name lines = (let v = strip (attr_get_d e attr) in
     if v \<noteq> [] then lines @ [''#+'' @ name @ '': '' @ v @ ''\<newline>''] else lines)"

section \<open>Table layout\<close>

text \<open>
  \<^verbatim>\<open>_cvt_table\<close>. The rows of a group are the children of the first
  \<^verbatim>\<open>thead\<close>, \<^verbatim>\<open>tbody\<close> or \<^verbatim>\<open>tfoot\<close> child, the cells of a row are its
  children.
\<close>

definition group_rows :: "elt \<Rightarrow> string \<Rightarrow> elt list" where
  "group_rows table name = (case find_child table name of None \<Rightarrow> [] | Some e \<Rightarrow> children e)"

text \<open>\<^verbatim>\<open>len(x.text.strip()) if x.text else 0\<close>.\<close>

definition cell_width :: "elt \<Rightarrow> nat" where
  "cell_width x = (case text_of x of None \<Rightarrow> 0
     | Some s \<Rightarrow> if s \<noteq> [] then length (strip s) else 0)"

text \<open>
  One round of the loop that computes \<^verbatim>\<open>maxw\<close>: \<^verbatim>\<open>zip\<close> stops at the
  shorter list, and an empty \<^verbatim>\<open>maxw\<close> is replaced by the widths of the row.
\<close>

definition maxw_step :: "nat list \<Rightarrow> elt \<Rightarrow> nat list" where
  "maxw_step maxw row = (let widths = map cell_width (children row) in
     if maxw \<noteq> [] then map (\<lambda>(x, y). max x y) (zip widths maxw) else widths)"

definition col_widths :: "elt list \<Rightarrow> nat list" where
  "col_widths allrows = map (\<lambda>x. 2 + x) (foldl maxw_step [] allrows)"

text \<open>The rule: the loop over \<^verbatim>\<open>maxw\<close> with its \<^verbatim>\<open>first\<close> flag.\<close>

fun rule_body :: "bool \<Rightarrow> nat list \<Rightarrow> string" where
  "rule_body first [] = []"
| "rule_body first (width # ws) =
     (if first then [] else ''+'') @ replicate width (CHR ''-'') @ rule_body False ws"

definition table_rule :: "nat list \<Rightarrow> string" where
  "table_rule maxw = ''|'' @ rule_body True maxw @ ''|\<newline>''"

text \<open>
  The column alignment. \<^verbatim>\<open>aligns\<close> starts as \<^verbatim>\<open>None\<close>; a value is
  true in Python when it is neither \<^verbatim>\<open>None\<close> nor empty.
\<close>

definition truthy :: "string option \<Rightarrow> bool" where
  "truthy x = (case x of None \<Rightarrow> False | Some s \<Rightarrow> s \<noteq> [])"

definition aligns_step :: "string option list option \<Rightarrow> elt \<Rightarrow> string option list option" where
  "aligns_step aligns row = (let a = map (\<lambda>x. attr_get x ''align'') (children row) in
     case aligns of None \<Rightarrow> Some a
     | Some al \<Rightarrow>
         if al \<noteq> [] then Some (map (\<lambda>(x, y). if truthy x then x else y) (zip al a))
         else Some a)"

text \<open>\<^verbatim>\<open>x[0] if x else "l"\<close>.\<close>

definition align_char :: "string option \<Rightarrow> string" where
  "align_char x = (case x of Some (c # cs) \<Rightarrow> [c] | _ \<Rightarrow> ''l'')"

text \<open>
  \<^verbatim>\<open>"{:<w}".format(s)\<close> and its variants: the string is padded with spaces to
  the width and never cut; centring puts the smaller half of the padding on the left.
\<close>

definition format_str :: "string \<Rightarrow> nat \<Rightarrow> string \<Rightarrow> string" where
  "format_str a width s = (let pad = width - length s in
     if a = ''>'' then replicate pad (CHR '' '') @ s
     else if a = ''^'' then
       replicate (pad div 2) (CHR '' '') @ s @ replicate (pad - pad div 2) (CHR '' '')
     else s @ replicate pad (CHR '' ''))"

definition get_row_text :: "nat \<Rightarrow> string \<Rightarrow> string \<Rightarrow> string" where
  "get_row_text width align etext =
     (let a = (if align = ''c'' then ''^'' else if align = ''r'' then ''>''
               else if align = ''l'' then ''<'' else []);
          lspace = '' ''; rspace = '' ''
      in ''|'' @ format_str a width (lspace @ etext @ rspace))"

text \<open>\<^verbatim>\<open>elt.text.strip() if elt.text is not None else ""\<close>.\<close>

definition cell_text :: "elt \<Rightarrow> string" where
  "cell_text x = (case text_of x of None \<Rightarrow> [] | Some s \<Rightarrow> strip s)"

definition row_text :: "nat list \<Rightarrow> string list \<Rightarrow> elt \<Rightarrow> string" where
  "row_text maxw aligns row =
     foldl (\<lambda>rtext (width, align, x). rtext @ get_row_text width align (cell_text x)) []
       (zip maxw (zip aligns (children row))) @ ''|\<newline>''"

definition align_row :: "nat list \<Rightarrow> string list \<Rightarrow> string" where
  "align_row maxw aligns =
     foldl (\<lambda>rtext (width, align). rtext @ get_row_text width align (''<'' @ align @ ''>'')) []
       (zip maxw aligns) @ ''|\<newline>''"

text \<open>The loop over the three groups, with its \<^verbatim>\<open>aligned\<close> flag.\<close>

fun emit_groups ::
  "nat list \<Rightarrow> string list \<Rightarrow> string \<Rightarrow> bool \<Rightarrow> elt list list \<Rightarrow> string list \<Rightarrow> string list" where
  "emit_groups maxw aligns rule aligned [] lines = lines"
| "emit_groups maxw aligns rule aligned (rows # groups) lines =
     (if rows = [] then emit_groups maxw aligns rule aligned groups lines
      else
        let lines1 = foldl (\<lambda>ls row. ls @ [row_text maxw aligns row]) lines rows;
            lines2 = (if \<not> aligned then lines1 @ [align_row maxw aligns] else lines1)
        in emit_groups maxw aligns rule True groups (lines2 @ [rule]))"

text \<open>The first lines of \<^verbatim>\<open>_cvt_table\<close>: the caption and the anchor.\<close>

definition table_caption :: "elt \<Rightarrow> string list \<Rightarrow> error + string list" where
  "table_caption table lines =
     rbind (case find_child table ''name'' of None \<Rightarrow> Inr lines
            | Some name \<Rightarrow>
                rbind (text_strip name) (\<lambda>s. Inr (lines @ [''#+caption: '' @ s @ ''\<newline>'']))) (\<lambda>lines1.
     Inr (add_elt_attr table ''anchor'' ''name'' lines1))"

text \<open>
  The alignment block of \<^verbatim>\<open>_cvt_table\<close>. With no row at all \<^verbatim>\<open>aligns\<close> is
  still \<^verbatim>\<open>None\<close> when the final comprehension iterates over it, which raises.
\<close>

definition table_aligns :: "elt list \<Rightarrow> error + string list" where
  "table_aligns allrows = (case foldl aligns_step None allrows of
       None \<Rightarrow> Inl TypeError
     | Some al \<Rightarrow> Inr (map align_char al))"

definition cvt_table :: "elt \<Rightarrow> string list \<Rightarrow> error + string list" where
  "cvt_table table lines =
     rbind (table_caption table lines) (\<lambda>lines2.
     let hrows = group_rows table ''thead'';
         brows = group_rows table ''tbody'';
         frows = group_rows table ''tfoot'';
         allrows = hrows @ brows @ frows;
         maxw = col_widths allrows;
         rule = table_rule maxw
     in rbind (table_aligns allrows) (\<lambda>aligns.
          Inr (emit_groups maxw aligns rule False [hrows, brows, frows] (lines2 @ [rule]))))"

section \<open>Bibliographic references\<close>

text \<open>\<^verbatim>\<open>_cvt_front_ref\<close>. The organization of the author is read unguarded.\<close>

definition cvt_front_ref :: "elt \<Rightarrow> string list \<Rightarrow> error + string list" where
  "cvt_front_ref front lines =
     rbind (case find_child front ''title'' of None \<Rightarrow> Inr lines
            | Some e \<Rightarrow>
                rbind (text_strip e) (\<lambda>s. Inr (lines @ ['':REF_TITLE: '' @ s @ ''\<newline>'']))) (\<lambda>lines1.
     case find_child front ''author'' of None \<Rightarrow> Inr lines1
     | Some author \<Rightarrow>
         (case find_child author ''organization'' of
            None \<Rightarrow> Inl AttributeError
          | Some org \<Rightarrow>
              rbind (text_strip org) (\<lambda>s. Inr (lines1 @ ['':REF_ORG: '' @ s @ ''\<newline>'']))))"

text \<open>
  The two patterns of \<^verbatim>\<open>_cvt_reference\<close>, matched with \<^verbatim>\<open>re.match\<close>:
  \<^verbatim>\<open>.*reference\.RFC\.([0-9]+)\.xml\<close> and \<^verbatim>\<open>.*reference\.I-D.([-a-z0-9]+)\.xml\<close>.
  The leading \<^verbatim>\<open>.*\<close> is greedy and does not cross a newline, so the match is the
  last position of the first line at which the rest of the pattern matches. The
  group is a maximal run of its class, since \<^verbatim>\<open>.\<close> is not in the class.
\<close>

definition is_digit :: "char \<Rightarrow> bool" where
  "is_digit c \<longleftrightarrow> c \<in> set ''0123456789''"

definition is_name_char :: "char \<Rightarrow> bool" where
  "is_name_char c \<longleftrightarrow> c = CHR ''-'' \<or> c \<in> set ''abcdefghijklmnopqrstuvwxyz'' \<or> is_digit c"

definition startswith :: "string \<Rightarrow> string \<Rightarrow> bool" where
  "startswith s p \<longleftrightarrow> take (length p) s = p"

definition group_then_xml :: "(char \<Rightarrow> bool) \<Rightarrow> string \<Rightarrow> string option" where
  "group_then_xml cls r = (let g = takeWhile cls r in
     if g \<noteq> [] \<and> startswith (dropWhile cls r) ''.xml'' then Some g else None)"

definition rfc_ref_here :: "string \<Rightarrow> string option" where
  "rfc_ref_here s = (if startswith s ''reference.RFC.''
     then group_then_xml is_digit (drop (length ''reference.RFC.'') s) else None)"

definition id_ref_here :: "string \<Rightarrow> string option" where
  "id_ref_here s = (if startswith s ''reference.I-D''
     then (case drop (length ''reference.I-D'') s of
             [] \<Rightarrow> None
           | c # r \<Rightarrow> if c = CHR ''\<newline>'' then None else group_then_xml is_name_char r)
     else None)"

fun last_match :: "(string \<Rightarrow> string option) \<Rightarrow> string \<Rightarrow> string option" where
  "last_match here [] = here []"
| "last_match here (c # cs) =
     (case (if c = CHR ''\<newline>'' then None else last_match here cs) of
        Some g \<Rightarrow> Some g
      | None \<Rightarrow> here (c # cs))"

text \<open>The heading of an include, when its href matches one of the patterns.\<close>

definition include_heading :: "elt \<Rightarrow> string option" where
  "include_heading child =
     (if contains (tag child) ''include'' then
        (case attr_get child ''href'' of None \<Rightarrow> None
         | Some href \<Rightarrow>
             (case last_match rfc_ref_here href of
                Some g \<Rightarrow> Some (''** RFC'' @ g @ ''\<newline>'')
              | None \<Rightarrow>
                  (case last_match id_ref_here href of
                     Some g \<Rightarrow> Some (''** I-D.'' @ g @ ''\<newline>'')
                   | None \<Rightarrow> None)))
      else None)"

text \<open>\<^verbatim>\<open>_cvt_reference\<close>.\<close>

definition cvt_reference :: "elt \<Rightarrow> string list \<Rightarrow> error + string list" where
  "cvt_reference child lines =
     (case include_heading child of
        Some heading \<Rightarrow> Inr (lines @ [heading])
      | None \<Rightarrow>
          if tag child = ''reference'' then
            (case attr_get child ''anchor'' of
               None \<Rightarrow> Inl AssertionError
             | Some anchor \<Rightarrow>
                 let lines1 = lines @ [''** '' @ anchor @ ''\<newline>'', '':PROPERTIES:\<newline>''];
                     lines2 = (case attr_get child ''target'' of None \<Rightarrow> lines1
                               | Some target \<Rightarrow>
                                   lines1 @ ['':REF_TARGET: '' @ strip target @ ''\<newline>''])
                 in rbind (case find_child child ''front'' of None \<Rightarrow> Inr lines2
                           | Some front \<Rightarrow> cvt_front_ref front lines2) (\<lambda>lines3.
                    Inr (lines3 @ ['':END:\<newline>''])))
          else Inr lines)"

section \<open>Text\<close>

text \<open>
  \<^verbatim>\<open>_unindent\<close>: \<^verbatim>\<open>re.sub("\n[ \t]+", " ", text)\<close>. A newline followed by
  spaces and tabs becomes one space.
\<close>

definition is_blank :: "char \<Rightarrow> bool" where
  "is_blank c \<longleftrightarrow> c = CHR '' '' \<or> c = CHR 0x09"

function unindent :: "string \<Rightarrow> string" where
  "unindent [] = []"
| "unindent (c # cs) =
     (if c = CHR ''\<newline>'' \<and> takeWhile is_blank cs \<noteq> []
      then CHR '' '' # unindent (dropWhile is_blank cs)
      else c # unindent cs)"
  by pat_completeness auto
termination
  by (relation "measure length") (auto intro: le_imp_less_Suc length_dropWhile_le)

text \<open>\<^verbatim>\<open>re.sub("\n\n\n+", "\n\n", ptext)\<close>.\<close>

function sub_blank_lines :: "string \<Rightarrow> string" where
  "sub_blank_lines [] = []"
| "sub_blank_lines (c # cs) =
     (if c = CHR ''\<newline>'' \<and> take 2 cs = ''\<newline>\<newline>''
      then ''\<newline>\<newline>'' @ sub_blank_lines (dropWhile (\<lambda>d. d = CHR ''\<newline>'') cs)
      else c # sub_blank_lines cs)"
  by pat_completeness auto
termination
  by (relation "measure length") (auto intro: le_imp_less_Suc length_dropWhile_le)

text \<open>The end of the \<^verbatim>\<open>t\<close> branch: the paragraph ends in two newlines.\<close>

definition paragraph_end :: "string \<Rightarrow> string" where
  "paragraph_end ptext =
     (if \<not> endswith ptext ''\<newline>\<newline>'' then
        (if endswith ptext ''\<newline>'' then ptext @ ''\<newline>'' else ptext @ ''\<newline>\<newline>'')
      else ptext)"

section \<open>Body and back matter\<close>

text \<open>
  The branches of \<^verbatim>\<open>_cvt_mid_back\<close> that do not recurse are definitions of
  their own. The section branch first: the title, then the heading with its
  property block. The anchor is trimmed before it is looked up, and the lookup
  \<^verbatim>\<open>glb.sec_refs[anchor]\<close> raises for a missing key.
\<close>

definition section_title :: "elt \<Rightarrow> error + string" where
  "section_title e =
     (let title = (case attr_get e ''title'' of Some v \<Rightarrow> strip v | None \<Rightarrow> []) in
      if title = [] then
        (case find_child e ''name'' of None \<Rightarrow> Inr title | Some n \<Rightarrow> text_strip n)
      else Inr title)"

definition section_heading :: "ref_table \<Rightarrow> elt \<Rightarrow> string list \<Rightarrow> nat \<Rightarrow> error + string list" where
  "section_heading sr e lines level =
     rbind (section_title e) (\<lambda>title.
     rbind (if title \<noteq> [] then
              (let header_prefix = replicate (level + 1) (CHR ''*'');
                   lines1 = lines @ [''\<newline>'' @ header_prefix @ '' '' @ title @ ''\<newline>''];
                   anchor = strip (attr_get_d e ''anchor'')
               in if anchor \<noteq> [] then
                    (case sr anchor of
                       None \<Rightarrow> Inl KeyError
                     | Some n \<Rightarrow>
                         if n > 0 then
                           Inr (lines1 @ ['':PROPERTIES:\<newline>'',
                                  '':CUSTOM_ID: '' @ anchor @ ''\<newline>'', '':END:\<newline>''])
                         else Inr lines1)
                  else Inr lines1)
            else Inr lines) (\<lambda>lines2.
     Inr (lines2 @ [''\<newline>''])))"

text \<open>The \<^verbatim>\<open>references\<close> branch.\<close>

definition cvt_references :: "elt \<Rightarrow> string list \<Rightarrow> bool \<Rightarrow> nat \<Rightarrow> error + string list" where
  "cvt_references e lines mid level =
     (if mid then Inl AssertionError
      else
        rbind (case find_child e ''name'' of None \<Rightarrow> Inr lines
               | Some title \<Rightarrow>
                   rbind (text_strip title) (\<lambda>s.
                     Inr (lines @ [''\<newline>'' @ replicate (level + 1) (CHR ''*'') @ '' '' @ s @
                                   ''\<newline>\<newline>'']))) (\<lambda>lines1.
        for_each (\<lambda>child ls. if tag child = ''name'' then Inr ls else cvt_reference child ls)
          (children e) lines1))"

text \<open>The link of the \<^verbatim>\<open>xref\<close> branch.\<close>

definition xref_link :: "ref_table \<Rightarrow> elt \<Rightarrow> string list \<Rightarrow> error + string list" where
  "xref_link sr e lines =
     (case attr_get e ''target'' of
        None \<Rightarrow> Inl KeyError
      | Some target \<Rightarrow>
          if target = [] then Inl AssertionError
          else (case sr target of
                  Some n \<Rightarrow> Inr (lines @ [''[[#'' @ target @ '']]''])
                | None \<Rightarrow> Inr (lines @ [''[['' @ target @ '']]''])))"

text \<open>The attribute line of the \<^verbatim>\<open>dl\<close>, \<^verbatim>\<open>ol\<close> and \<^verbatim>\<open>ul\<close> branches.\<close>

definition dl_attrs :: "elt \<Rightarrow> string" where
  "dl_attrs e =
     (if attr_get e ''hanging'' = Some ''true'' \<or> attr_get e ''hanging'' = Some ''yes''
      then '' :hanging t'' else []) @
     (if attr_get e ''spacing'' = Some ''compact'' then '' :compact t'' else [])"

definition list_attrs :: "elt \<Rightarrow> string" where
  "list_attrs e = (if attr_get e ''spacing'' = Some ''compact'' then '' :compact t'' else [])"

definition attr_rfc_line :: "string \<Rightarrow> string list \<Rightarrow> string list" where
  "attr_rfc_line attrs lines =
     (if attrs \<noteq> [] then lines @ [''#+ATTR_RFC:'' @ attrs @ ''\<newline>''] else lines)"

text \<open>
  The \<^verbatim>\<open>figure\<close> branch. An artwork without text is formatted as
  \<^verbatim>\<open>None\<close>.
\<close>

definition cvt_figure :: "elt \<Rightarrow> string list \<Rightarrow> error + string list" where
  "cvt_figure e lines =
     rbind (case find_child e ''name'' of None \<Rightarrow> Inr [] | Some n \<Rightarrow> text_strip n) (\<lambda>name.
     case find_child e ''artwork'' of
       None \<Rightarrow> Inl AttributeError
     | Some aw \<Rightarrow>
         let artwork = (case text_of aw of None \<Rightarrow> ''None'' | Some s \<Rightarrow> s);
             lines1 = (if name \<noteq> [] then lines @ [''#+caption: '' @ name @ ''\<newline>'']
                       else lines);
             lines2 = add_elt_attr e ''anchor'' ''name'' lines1
         in Inr (lines2 @ [''#+begin_src\<newline>'' @ artwork @ ''\<newline>#+end_src\<newline>'']))"

text \<open>
  \<^verbatim>\<open>_cvt_mid_back\<close> and \<^verbatim>\<open>_cvt_mid_back_text_elt\<close>, with their loops over
  children. \<open>fill\<close> stands for \<^verbatim>\<open>_fill\<close> at width 69 (the library's
  \<^verbatim>\<open>textwrap.fill\<close> followed by a substitution); its first argument is the
  indent. It returns a string for every string.
\<close>

function (sequential) cvt_mid_back ::
    "ref_table \<Rightarrow> (nat \<Rightarrow> string \<Rightarrow> string) \<Rightarrow> elt \<Rightarrow> string list \<Rightarrow> bool \<Rightarrow> nat \<Rightarrow>
       error + string list"
  and cvt_section_children ::
    "ref_table \<Rightarrow> (nat \<Rightarrow> string \<Rightarrow> string) \<Rightarrow> elt list \<Rightarrow> string list \<Rightarrow> bool \<Rightarrow> nat \<Rightarrow>
       error + string list"
  and cvt_children ::
    "ref_table \<Rightarrow> (nat \<Rightarrow> string \<Rightarrow> string) \<Rightarrow> elt list \<Rightarrow> string list \<Rightarrow> bool \<Rightarrow> nat \<Rightarrow>
       error + string list"
  and cvt_mid_back_text_elt ::
    "ref_table \<Rightarrow> (nat \<Rightarrow> string \<Rightarrow> string) \<Rightarrow> elt list \<Rightarrow> string \<Rightarrow> nat \<Rightarrow> bool \<Rightarrow> nat \<Rightarrow>
       error + string"
  and cvt_text_children ::
    "ref_table \<Rightarrow> (nat \<Rightarrow> string \<Rightarrow> string) \<Rightarrow> elt list \<Rightarrow> string list \<Rightarrow> bool \<Rightarrow> nat \<Rightarrow>
       error + string list"
  and cvt_dl_items ::
    "ref_table \<Rightarrow> (nat \<Rightarrow> string \<Rightarrow> string) \<Rightarrow> elt list \<Rightarrow> string list \<Rightarrow> bool \<Rightarrow> nat \<Rightarrow>
       error + string list"
  and cvt_li_items ::
    "ref_table \<Rightarrow> (nat \<Rightarrow> string \<Rightarrow> string) \<Rightarrow> elt list \<Rightarrow> string list \<Rightarrow> bool \<Rightarrow> nat \<Rightarrow>
       error + string list"
where
  "cvt_mid_back sr fill (Elt t a x y cs) lines mid level =
     (if t = ''section'' then
        (case section_heading sr (Elt t a x y cs) lines level of
           Inl e \<Rightarrow> Inl e
         | Inr lines1 \<Rightarrow> cvt_section_children sr fill cs lines1 mid (level + 1))
      else if t = ''references'' then cvt_references (Elt t a x y cs) lines mid level
      else if t = ''t'' then
        (case x of
           None \<Rightarrow> Inl TypeError
         | Some txt \<Rightarrow>
             (case cvt_mid_back_text_elt sr fill cs (lstrip (unindent txt)) 0 mid level of
                Inl e \<Rightarrow> Inl e
              | Inr ptext \<Rightarrow> Inr (lines @ [paragraph_end (sub_blank_lines ptext)])))
      else if t = ''xref'' then
        (case xref_link sr (Elt t a x y cs) lines of
           Inl e \<Rightarrow> Inl e
         | Inr lines1 \<Rightarrow> cvt_children sr fill cs lines1 mid level)
      else if t = ''table'' then cvt_table (Elt t a x y cs) lines
      else if t = ''dl'' then
        (case cvt_dl_items sr fill cs
                (attr_rfc_line (dl_attrs (Elt t a x y cs)) (lines @ [''\<newline>''])) mid level of
           Inl e \<Rightarrow> Inl e
         | Inr lines1 \<Rightarrow> Inr (lines1 @ [''\<newline>'']))
      else if t = ''ol'' \<or> t = ''ul'' then
        (case cvt_li_items sr fill cs
                (attr_rfc_line (list_attrs (Elt t a x y cs)) (lines @ [''\<newline>''])) mid level of
           Inl e \<Rightarrow> Inl e
         | Inr lines1 \<Rightarrow> Inr (lines1 @ [''\<newline>'']))
      else if t = ''figure'' then cvt_figure (Elt t a x y cs) lines
      else cvt_children sr fill cs lines mid (level + 1))"
| "cvt_section_children sr fill [] lines mid level = Inr lines"
| "cvt_section_children sr fill (child # rest) lines mid level =
     (if tag child \<noteq> ''title'' then
        (case cvt_mid_back sr fill child lines mid level of
           Inl e \<Rightarrow> Inl e
         | Inr lines1 \<Rightarrow> cvt_section_children sr fill rest lines1 mid level)
      else cvt_section_children sr fill rest lines mid level)"
| "cvt_children sr fill [] lines mid level = Inr lines"
| "cvt_children sr fill (child # rest) lines mid level =
     (case cvt_mid_back sr fill child lines mid level of
        Inl e \<Rightarrow> Inl e
      | Inr lines1 \<Rightarrow> cvt_children sr fill rest lines1 mid level)"
| "cvt_mid_back_text_elt sr fill cs txt indent mid level =
     (case cvt_text_children sr fill cs [txt] mid level of
        Inl e \<Rightarrow> Inl e
      | Inr tlines \<Rightarrow> Inr (fill indent (concat tlines)))"
| "cvt_text_children sr fill [] tlines mid level = Inr tlines"
| "cvt_text_children sr fill (child # rest) tlines mid level =
     (case cvt_mid_back sr fill child tlines mid level of
        Inl e \<Rightarrow> Inl e
      | Inr tlines1 \<Rightarrow>
          (case tail child of
             None \<Rightarrow> cvt_text_children sr fill rest tlines1 mid level
           | Some tl_text \<Rightarrow>
               if tl_text = [] then cvt_text_children sr fill rest tlines1 mid level
               else if tlines1 = [] then Inl IndexError
               else cvt_text_children sr fill rest
                      (butlast tlines1 @ [last tlines1 @ unindent tl_text]) mid level))"
| "cvt_dl_items sr fill [] lines mid level = Inr lines"
| "cvt_dl_items sr fill [dt] lines mid level =
     (case text_strip dt of Inl e \<Rightarrow> Inl e | Inr term \<Rightarrow> Inr lines)"
| "cvt_dl_items sr fill (dt # Elt t a x y cs # rest) lines mid level =
     (case text_strip dt of
        Inl e \<Rightarrow> Inl e
      | Inr term \<Rightarrow>
          (case x of
             None \<Rightarrow> Inl TypeError
           | Some txt \<Rightarrow>
               (case cvt_mid_back_text_elt sr fill cs (lstrip (unindent txt)) 2 mid level of
                  Inl e \<Rightarrow> Inl e
                | Inr itext \<Rightarrow>
                    cvt_dl_items sr fill rest
                      (lines @ [''- '' @ term @ '' :: '' @ itext @ ''\<newline>'']) mid level)))"
| "cvt_li_items sr fill [] lines mid level = Inr lines"
| "cvt_li_items sr fill (Elt t a x y cs # rest) lines mid level =
     (if t = ''li'' then
        (case x of
           None \<Rightarrow> Inl TypeError
         | Some txt \<Rightarrow>
             (case cvt_mid_back_text_elt sr fill cs (lstrip (unindent txt)) 2 mid level of
                Inl e \<Rightarrow> Inl e
              | Inr itext \<Rightarrow>
                  cvt_li_items sr fill rest (lines @ [''- '' @ itext @ ''\<newline>'']) mid level))
      else cvt_li_items sr fill rest lines mid level)"
  by pat_completeness auto
termination
  by (relation "measure (case_sum
        (case_sum (\<lambda>(sr, fill, e, r). 2 * size e)
           (case_sum (\<lambda>(sr, fill, cs, r). 2 * size_list size cs)
                     (\<lambda>(sr, fill, cs, r). 2 * size_list size cs)))
        (case_sum
           (case_sum (\<lambda>(sr, fill, cs, r). 2 * size_list size cs + 1)
                     (\<lambda>(sr, fill, cs, r). 2 * size_list size cs))
           (case_sum (\<lambda>(sr, fill, cs, r). 2 * size_list size cs)
                     (\<lambda>(sr, fill, cs, r). 2 * size_list size cs))))")
     auto

section \<open>Front matter\<close>

text \<open>
  The globals of the converter. The field \<^verbatim>\<open>keywords\<close> (here \<open>keyword_set\<close>) is a
  Python set: it has no
  order of its own, and the order in which the interpreter iterates over it is a
  parameter \<open>set_iter\<close> of \<open>top_level\<close>.
\<close>

record globals =
  did_author :: bool
  keyword_set :: "string set"
  sec_refs :: ref_table

definition dq :: string where
  "dq = [CHR 0x22]"

text \<open>
  The \<^verbatim>\<open>author\<close> branch of \<^verbatim>\<open>convert_xml_front\<close>. A missing
  \<^verbatim>\<open>fullname\<close> is \<^verbatim>\<open>None\<close>: the format \<^verbatim>\<open>{fname:s}\<close> of the first
  author raises on it, the plain \<^verbatim>\<open>{fname}\<close> of a later author prints it.
\<close>

definition front_author :: "elt \<Rightarrow> globals \<times> string list \<Rightarrow> error + globals \<times> string list" where
  "front_author e st = (case st of (glb, lines) \<Rightarrow>
     let fname = attr_get e ''fullname'' in
     rbind (case find_child e ''address'' of None \<Rightarrow> Inr []
            | Some ad \<Rightarrow>
                (case find_child ad ''email'' of None \<Rightarrow> Inr [] | Some em \<Rightarrow> text_strip em)) (\<lambda>email.
     rbind (case find_child e ''organization'' of None \<Rightarrow> Inr ([], [])
            | Some og \<Rightarrow>
                rbind (text_strip og) (\<lambda>org. Inr (org, strip (attr_get_d og ''abbrev'')))) (\<lambda>(org, org_abbrev).
     if did_author glb then
       let org1 = (if org_abbrev \<noteq> [] then ''('' @ dq @ org_abbrev @ dq @ '' '' @ dq @ org @ dq @ '')''
                   else dq @ org @ dq);
           add = ''('' @ dq @ (case fname of None \<Rightarrow> ''None'' | Some f \<Rightarrow> f) @ dq @ '' '' @
                 dq @ email @ dq @ '' '' @ org1 @ '')''
       in Inr (glb, lines @ [''#+RFC_ADD_AUTHOR: '' @ add @ ''\<newline>''])
     else
       (case fname of
          None \<Rightarrow> Inl TypeError
        | Some f \<Rightarrow>
            let lines1 = lines @ [''#+AUTHOR: '' @ f @ ''\<newline>''];
                lines2 = (if email \<noteq> [] then lines1 @ [''#+EMAIL: '' @ email @ ''\<newline>'']
                          else lines1);
                lines3 = (if org \<noteq> [] then lines2 @ [''#+AFFILIATION: '' @ org @ ''\<newline>'']
                          else lines2);
                lines4 = (if org_abbrev \<noteq> []
                          then lines3 @ [''#+RFC_SHORT_ORG: '' @ org_abbrev @ ''\<newline>'']
                          else lines3)
            in Inr (glb\<lparr>did_author := True\<rparr>, lines4)))))"

text \<open>\<^verbatim>\<open>convert_xml_front\<close> and its loop over the children.\<close>

function (sequential) convert_xml_front ::
    "(nat \<Rightarrow> string \<Rightarrow> string) \<Rightarrow> elt \<Rightarrow> globals \<times> string list \<Rightarrow> nat \<Rightarrow>
       error + globals \<times> string list"
  and convert_front_children ::
    "(nat \<Rightarrow> string \<Rightarrow> string) \<Rightarrow> elt list \<Rightarrow> globals \<times> string list \<Rightarrow> nat \<Rightarrow>
       error + globals \<times> string list"
where
  "convert_xml_front fill (Elt t a x y cs) (glb, lines) level =
     (if t = ''title'' then
        rbind (text_strip (Elt t a x y cs)) (\<lambda>s.
          Inr (glb, add_elt_attr (Elt t a x y cs) ''abbrev'' ''RFC_SHORT_TITLE''
                      (lines @ [''#+TITLE: '' @ s @ ''\<newline>''])))
      else if t = ''author'' then front_author (Elt t a x y cs) (glb, lines)
      else if t = ''abstract'' then
        rbind (cvt_children (sec_refs glb) fill cs
                 (lines @ [''\<newline>#+begin_abstract\<newline>'']) True (level + 1)) (\<lambda>lines1.
          Inr (glb, lines1 @ [''#+end_abstract\<newline>'']))
      else if t = ''area'' then
        rbind (text_strip (Elt t a x y cs)) (\<lambda>s.
          Inr (glb, lines @ [''#+RFC_AREA: '' @ s @ ''\<newline>'']))
      else if t = ''workgroup'' then
        rbind (text_strip (Elt t a x y cs)) (\<lambda>s.
          Inr (glb, lines @ [''#+RFC_WORKGROUP: '' @ s @ ''\<newline>'']))
      else if t = ''keyword'' then
        rbind (text_strip (Elt t a x y cs)) (\<lambda>s.
          Inr (glb\<lparr>keyword_set := insert s (keyword_set glb)\<rparr>, lines))
      else convert_front_children fill cs (glb, lines) (level + 1))"
| "convert_front_children fill [] st level = Inr st"
| "convert_front_children fill (child # rest) st level =
     (case convert_xml_front fill child st level of
        Inl e \<Rightarrow> Inl e
      | Inr st1 \<Rightarrow> convert_front_children fill rest st1 level)"
  by pat_completeness auto
termination
  by (relation "measure (case_sum (\<lambda>(fill, e, r). size e) (\<lambda>(fill, cs, r). size_list size cs))")
     auto

section \<open>The document\<close>

text \<open>
  \<^verbatim>\<open>_cvt_rfc_attr\<close>. The pattern \<^verbatim>\<open>([-a-z0-9]+)-([0-9][0-9])\<close> is matched at
  the start of the value; the first group is greedy, so it ends at the last
  hyphen of the leading run of name characters that two digits follow.
\<close>

definition rfc_attr_map :: "string \<Rightarrow> string option" where
  "rfc_attr_map = map_of
     [(''category'', ''RFC_CATEGORY''), (''consensus'', ''RFC_CONSENSUS''),
      (''docName'', ''RFC_NAME''), (''ipr'', ''RFC_IPR''), (''obsoletes'', ''RFC_OBSOLETES''),
      (''submissionType'', ''RFC_STREAM''), (''tocDepth'', ''RFC_TOC_DEPTH''),
      (''updates'', ''RFC_UPDATES''), (''version'', ''RFC_XML_VERSION'')]"

fun docname_match :: "string \<Rightarrow> string \<Rightarrow> (string \<times> string) option" where
  "docname_match pre [] = None"
| "docname_match pre (c # cs) =
     (if is_name_char c then
        (case docname_match (pre @ [c]) cs of
           Some m \<Rightarrow> Some m
         | None \<Rightarrow>
             (if c = CHR ''-'' \<and> pre \<noteq> [] then
                (case cs of
                   d1 # d2 # r \<Rightarrow>
                     if is_digit d1 \<and> is_digit d2 then Some (pre, [d1, d2]) else None
                 | _ \<Rightarrow> None)
              else None))
      else None)"

definition cvt_rfc_attr :: "elt \<Rightarrow> string list \<Rightarrow> error + string list" where
  "cvt_rfc_attr e lines =
     rbind (for_each (\<lambda>(k, v) ls.
              if k = ''docName'' then
                (case docname_match [] v of
                   None \<Rightarrow> Inl AssertionError
                 | Some (name, version) \<Rightarrow>
                     Inr (ls @ [''#+RFC_NAME: '' @ name @ ''\<newline>'',
                                ''#+RFC_VERSION: '' @ version @ ''\<newline>'']))
              else
                (case rfc_attr_map k of
                   Some name \<Rightarrow>
                     if (k = ''obsoletes'' \<or> k = ''updates'') \<and> v = [] then Inr ls
                     else Inr (ls @ [''#+'' @ name @ '': '' @ v @ ''\<newline>''])
                 | None \<Rightarrow> Inr ls))
            (attrib e) lines) (\<lambda>lines1.
     Inr (lines1 @ [''\<newline>'']))"

text \<open>
  The keywords line written after the children of \<^verbatim>\<open>front\<close>: the quoted
  keywords, in the reverse of the order in which the set is iterated.
\<close>

definition keywords_line :: "string list \<Rightarrow> string" where
  "keywords_line keylist = ''#+RFC_KEYWORDS: ('' @ join '' '' (rev keylist) @ '')\<newline>''"

text \<open>One round of the loop of \<^verbatim>\<open>top_level\<close> over the children of the root.\<close>

definition top_level_child ::
    "(string set \<Rightarrow> string list) \<Rightarrow> (nat \<Rightarrow> string \<Rightarrow> string) \<Rightarrow> elt \<Rightarrow>
       globals \<times> string list \<Rightarrow> error + globals \<times> string list" where
  "top_level_child set_iter fill e st = (case st of (glb, lines) \<Rightarrow>
     if tag e = ''front'' then
       rbind (convert_front_children fill (children e) (glb, lines) 0) (\<lambda>(glb1, lines1).
         let keylist = map (\<lambda>x. dq @ x @ dq) (set_iter (keyword_set glb1))
         in if keylist \<noteq> [] then Inr (glb1, lines1 @ [keywords_line keylist])
            else Inr (glb1, lines1))
     else if tag e = ''middle'' then
       rbind (cvt_children (sec_refs glb) fill (children e) lines True 0) (\<lambda>lines1.
         Inr (glb, lines1))
     else if tag e = ''back'' then
       rbind (cvt_children (sec_refs glb) fill (children e) lines False 0) (\<lambda>lines1.
         Inr (glb, lines1))
     else Inr (glb, lines))"

text \<open>
  \<^verbatim>\<open>top_level\<close>. For a root that is not \<^verbatim>\<open>rfc\<close> the source logs
  \<^verbatim>\<open>elt.tag\<close>, but \<^verbatim>\<open>elt\<close> is the variable of the loop in the other branch
  and is not bound: evaluating the argument raises \<^verbatim>\<open>UnboundLocalError\<close>.
\<close>

definition top_level ::
    "(string set \<Rightarrow> string list) \<Rightarrow> (nat \<Rightarrow> string \<Rightarrow> string) \<Rightarrow> elt \<Rightarrow> globals \<Rightarrow>
       error + globals \<times> string list" where
  "top_level set_iter fill root glb =
     (if tag root = ''rfc'' then
        rbind (cvt_rfc_attr root []) (\<lambda>lines.
          for_each (top_level_child set_iter fill) (children root) (glb, lines))
      else Inl UnboundLocalError)"

text \<open>
  \<^verbatim>\<open>convert_xml_to_markdown\<close>, from the parsed tree on: the collector runs on the
  globals of a fresh process, then the tree is converted and the lines are
  joined.
\<close>

definition convert_xml_to_markdown ::
    "(string set \<Rightarrow> string list) \<Rightarrow> (nat \<Rightarrow> string \<Rightarrow> string) \<Rightarrow> elt \<Rightarrow> error + string" where
  "convert_xml_to_markdown set_iter fill root =
     (let glb = \<lparr>did_author = False, keyword_set = {},
                 sec_refs = gather_section_refs root Map.empty\<rparr>
      in rbind (top_level set_iter fill root glb) (\<lambda>(glb1, lines). Inr (concat lines)))"

section \<open>Reference notions for the keywords\<close>

text \<open>
  The keywords that the front-matter walk inserts, in document order: the
  trimmed texts of the \<^verbatim>\<open>keyword\<close> elements it reaches. It does not descend
  into the elements it handles itself.
\<close>

fun front_keywords :: "elt \<Rightarrow> string list"
  and front_keywords_list :: "elt list \<Rightarrow> string list" where
  "front_keywords (Elt t a x y cs) =
     (if t \<in> set [''title'', ''author'', ''abstract'', ''area'', ''workgroup''] then []
      else if t = ''keyword'' then (case x of None \<Rightarrow> [] | Some s \<Rightarrow> [strip s])
      else front_keywords_list cs)"
| "front_keywords_list [] = []"
| "front_keywords_list (c # cs) = front_keywords c @ front_keywords_list cs"

text \<open>
  An iteration order for sets of strings: the members of the set in the order
  in which \<open>slots\<close> lists them, as a hash table is read slot by slot.
\<close>

definition slot_order :: "string list \<Rightarrow> string set \<Rightarrow> string list" where
  "slot_order slots S = filter (\<lambda>x. x \<in> S) slots"

section \<open>Example documents\<close>

text \<open>A section with the anchor \<^verbatim>\<open>sec-x\<close>, and a cross-reference to it.\<close>

definition sec_x :: elt where
  "sec_x = Elt ''section'' [(''title'', ''Intro''), (''anchor'', ''sec-x'')] None None []"

definition xref_x :: elt where
  "xref_x = Elt ''xref'' [(''target'', ''sec-x'')] None None []"

text \<open>A document whose only section has an anchor that ends in a space.\<close>

definition padded_anchor_doc :: elt where
  "padded_anchor_doc = Elt ''rfc'' [] None None
     [Elt ''middle'' [] None None
        [Elt ''section'' [(''title'', ''T''), (''anchor'', ''a '')] None None []]]"

text \<open>
  A document with the anchors \<^verbatim>\<open>"a"\<close> and \<^verbatim>\<open>"a "\<close>; the second section is
  referenced once, the first never.
\<close>

definition section_b :: elt where
  "section_b = Elt ''section'' [(''title'', ''B''), (''anchor'', ''a '')] None None
     [Elt ''t'' [] (Some ''see '') None [Elt ''xref'' [(''target'', ''a '')] None None []]]"

definition padded_doc :: elt where
  "padded_doc = Elt ''rfc'' [] None None
     [Elt ''middle'' [] None None
        [Elt ''section'' [(''title'', ''A''), (''anchor'', ''a'')] None None [], section_b]]"

text \<open>The same two sections, each referenced once.\<close>

definition both_referenced_doc :: elt where
  "both_referenced_doc = Elt ''rfc'' [] None None
     [Elt ''middle'' [] None None
        [Elt ''section'' [(''title'', ''A''), (''anchor'', ''a'')] None None
           [Elt ''t'' [] (Some ''see '') None [Elt ''xref'' [(''target'', ''a'')] None None []]],
         section_b]]"

text \<open>A paragraph that starts with a cross-reference: it has no text of its own.\<close>

definition para_xref :: elt where
  "para_xref = Elt ''t'' [] None None
     [Elt ''xref'' [(''target'', ''sec-x'')] None (Some '' says'') []]"

text \<open>A reference whose author has no organization.\<close>

definition ref_no_org :: elt where
  "ref_no_org = Elt ''reference'' [(''anchor'', ''X'')] None None
     [Elt ''front'' [] None None [Elt ''author'' [(''fullname'', ''A. Writer'')] None None []]]"

text \<open>A front matter with the keywords a and b, and the globals of a fresh process.\<close>

definition kw :: "string \<Rightarrow> elt" where
  "kw s = Elt ''keyword'' [] (Some s) None []"

definition front_ab :: elt where
  "front_ab = Elt ''front'' [] None None [kw ''a'', kw ''b'']"

definition glb0 :: globals where
  "glb0 = \<lparr>did_author = False, keyword_set = {}, sec_refs = Map.empty\<rparr>"

definition td :: "string \<Rightarrow> elt" where
  "td s = Elt ''td'' [] (Some s) None []"

definition tr :: "elt list \<Rightarrow> elt" where
  "tr cells = Elt ''tr'' [] None None cells"

text \<open>The two by two table of the specification: a, bb over ccc, d.\<close>

definition spec_table :: elt where
  "spec_table = Elt ''table'' [] None None
     [Elt ''tbody'' [] None None [tr [td ''a'', td ''bb''], tr [td ''ccc'', td ''d'']]]"

text \<open>A table whose second row is shorter than its first.\<close>

definition ragged_table :: elt where
  "ragged_table = Elt ''table'' [] None None
     [Elt ''tbody'' [] None None [tr [td ''aaaa'', td ''bbbbb''], tr [td ''c'']]]"

text \<open>A table with a head of one row and a body of two.\<close>

definition head_body_table :: elt where
  "head_body_table = Elt ''table'' [] None None
     [Elt ''thead'' [] None None [tr [td ''name'', td ''value'']],
      Elt ''tbody'' [] None None [tr [td ''alpha'', td ''1''], tr [td ''beta'', td ''22'']]]"

text \<open>A table with one body row whose \<^verbatim>\<open>name\<close> child has no text.\<close>

definition empty_name_table :: elt where
  "empty_name_table = Elt ''table'' [] None None
     [Elt ''name'' [] None None [], Elt ''tbody'' [] None None [tr [td ''a'']]]"

section \<open>Properties\<close>

subsection \<open>The reference collector\<close>

lemma dom_note_xref: "dom (note_xref sr e) = dom sr"
  by (auto simp: note_xref_def Let_def split: option.splits if_splits)

lemma dom_foldl_note_xref: "dom (foldl note_xref sr es) = dom sr"
  by (induction es arbitrary: sr) (simp_all add: dom_note_xref)

lemma foldl_note_section:
  "foldl note_section sr es = (\<lambda>k. if k \<in> anchors es then Some 0 else sr k)"
proof (induction es arbitrary: sr)
  case Nil
  show ?case by (simp add: anchors_def)
next
  case (Cons e es)
  show ?case
    unfolding foldl_Cons Cons.IH
    by (rule ext) (auto simp: note_section_def anchors_def Let_def)
qed

lemma dom_gather:
  "dom (gather_section_refs root sr) = anchors (findall_desc root ''section'') \<union> dom sr"
  unfolding gather_section_refs_def dom_foldl_note_xref foldl_note_section
  by (auto split: if_splits)

lemma gather_twice:
  assumes "dom sr \<subseteq> anchors (findall_desc root ''section'')"
  shows "gather_section_refs root (gather_section_refs root sr) = gather_section_refs root sr"
proof -
  let ?A = "anchors (findall_desc root ''section'')"
  let ?p1 = "\<lambda>s. foldl note_section s (findall_desc root ''section'')"
  have d: "dom (gather_section_refs root sr) = ?A"
    using assms by (auto simp: dom_gather)
  have "?p1 (gather_section_refs root sr) = ?p1 sr"
    unfolding foldl_note_section
  proof (rule ext)
    fix k
    show "(if k \<in> ?A then Some 0 else gather_section_refs root sr k) =
          (if k \<in> ?A then Some 0 else sr k)"
    proof (cases "k \<in> ?A")
      case True
      then show ?thesis by simp
    next
      case False
      then have "k \<notin> dom (gather_section_refs root sr)" by (simp only: d, simp)
      then have g: "gather_section_refs root sr k = None" by (simp only: domIff, simp)
      from False assms have "k \<notin> dom sr" by blast
      then have "sr k = None" by (simp only: domIff, simp)
      with g show ?thesis by simp
    qed
  qed
  then show ?thesis
    by (simp add: gather_section_refs_def)
qed

text \<open>
  Claim C8. The table starts empty (\<^verbatim>\<open>sec_refs = {}\<close>). Running the
  collector a second time on the same tree, on the table the first run left,
  gives the table of the first run: the first loop resets every key to 0, and
  the keys are exactly the section anchors of the tree.
\<close>

theorem gather_section_refs_idempotent:
  "gather_section_refs root (gather_section_refs root Map.empty) =
   gather_section_refs root Map.empty"
  by (rule gather_twice) simp

subsection \<open>Evaluation of the table functions\<close>

lemmas row_eval = table_rule_def row_text_def align_row_def get_row_text_def format_str_def
  cell_text_def strip_def lstrip_def rstrip_def is_space_def Let_def td_def tr_def

lemmas table_eval = cvt_table_def table_caption_def table_aligns_def rbind_def find_child_def
  add_elt_attr_def attr_get_d_def attr_get_def group_rows_def col_widths_def maxw_step_def
  cell_width_def strip_def lstrip_def rstrip_def is_space_def table_rule_def aligns_step_def
  align_char_def truthy_def row_text_def align_row_def get_row_text_def format_str_def
  cell_text_def text_strip_def Let_def td_def tr_def

subsection \<open>Column widths\<close>

lemma Min_insert_min:
  fixes a :: "'a::linorder"
  assumes "finite A"
  shows "Min (insert (min a b) A) = Min (insert a (insert b A))"
proof (cases "A = {}")
  case True
  then show ?thesis by (simp add: min.commute)
next
  case False
  with assms show ?thesis by (simp add: min.assoc)
qed

lemma Max_insert_max:
  fixes a :: "'a::linorder"
  assumes "finite A"
  shows "Max (insert (max a b) A) = Max (insert a (insert b A))"
proof (cases "A = {}")
  case True
  then show ?thesis by (simp add: max.commute)
next
  case False
  with assms show ?thesis by (simp add: max.assoc)
qed

lemma length_maxw_step:
  "maxw \<noteq> [] \<Longrightarrow> length (maxw_step maxw row) = min (length (children row)) (length maxw)"
  by (simp add: maxw_step_def Let_def)

lemma nth_maxw_step:
  "maxw \<noteq> [] \<Longrightarrow> i < length (children row) \<Longrightarrow> i < length maxw \<Longrightarrow>
   maxw_step maxw row ! i = max (cell_width (children row ! i)) (maxw ! i)"
  by (simp add: maxw_step_def Let_def)

lemma foldl_maxw_step_length:
  "maxw \<noteq> [] \<Longrightarrow> \<forall>r \<in> set rows. children r \<noteq> [] \<Longrightarrow>
   length (foldl maxw_step maxw rows) =
     Min (insert (length maxw) ((\<lambda>r. length (children r)) ` set rows))"
proof (induction rows arbitrary: maxw)
  case Nil
  then show ?case by simp
next
  case (Cons r rows)
  have ne: "maxw_step maxw r \<noteq> []"
    using Cons.prems length_maxw_step [of maxw r] by (auto simp: min_def split: if_splits)
  have "length (foldl maxw_step maxw (r # rows)) =
        Min (insert (length (maxw_step maxw r)) ((\<lambda>r. length (children r)) ` set rows))"
    using Cons.IH [OF ne] Cons.prems by simp
  also have "\<dots> = Min (insert (length maxw) ((\<lambda>r. length (children r)) ` set (r # rows)))"
    using Cons.prems(1) by (simp add: length_maxw_step Min_insert_min insert_commute)
  finally show ?case .
qed

lemma foldl_maxw_step_nth:
  "maxw \<noteq> [] \<Longrightarrow> \<forall>r \<in> set rows. children r \<noteq> [] \<Longrightarrow>
   i < length (foldl maxw_step maxw rows) \<Longrightarrow>
   foldl maxw_step maxw rows ! i =
     Max (insert (maxw ! i) ((\<lambda>r. cell_width (children r ! i)) ` set rows))"
proof (induction rows arbitrary: maxw)
  case Nil
  then show ?case by simp
next
  case (Cons r rows)
  have ne: "maxw_step maxw r \<noteq> []"
    using Cons.prems length_maxw_step [of maxw r] by (auto simp: min_def split: if_splits)
  have rest: "\<forall>r \<in> set rows. children r \<noteq> []" using Cons.prems by simp
  have i': "i < length (foldl maxw_step (maxw_step maxw r) rows)" using Cons.prems by simp
  have "length (foldl maxw_step (maxw_step maxw r) rows) \<le> length (maxw_step maxw r)"
    unfolding foldl_maxw_step_length [OF ne rest] by simp
  with i' have "i < length (maxw_step maxw r)" by simp
  then have il: "i < length (children r)" "i < length maxw"
    using Cons.prems(1) by (simp_all add: length_maxw_step)
  have "foldl maxw_step maxw (r # rows) ! i =
        Max (insert (maxw_step maxw r ! i) ((\<lambda>r. cell_width (children r ! i)) ` set rows))"
    using Cons.IH [OF ne rest i'] by simp
  also have "\<dots> = Max (insert (maxw ! i) ((\<lambda>r. cell_width (children r ! i)) ` set (r # rows)))"
    using Cons.prems(1) il by (simp add: nth_maxw_step Max_insert_max insert_commute)
  finally show ?case .
qed

lemma col_widths_min_max:
  assumes "allrows \<noteq> []" and "\<forall>r \<in> set allrows. children r \<noteq> []"
  shows "length (col_widths allrows) = Min ((\<lambda>r. length (children r)) ` set allrows) \<and>
         (\<forall>i < length (col_widths allrows).
           col_widths allrows ! i =
             2 + Max ((\<lambda>r. cell_width (children r ! i)) ` set allrows))"
proof -
  obtain r rows where ar: "allrows = r # rows" using assms(1) by (cases allrows) auto
  have s: "maxw_step [] r = map cell_width (children r)" by (simp add: maxw_step_def)
  have ne: "maxw_step [] r \<noteq> []" using assms(2) ar by (simp add: s)
  have rest: "\<forall>r \<in> set rows. children r \<noteq> []" using assms(2) ar by simp
  have f: "foldl maxw_step [] allrows = foldl maxw_step (maxw_step [] r) rows" by (simp add: ar)
  have len: "length (col_widths allrows) = Min ((\<lambda>r. length (children r)) ` set allrows)"
    unfolding col_widths_def length_map f foldl_maxw_step_length [OF ne rest]
    by (simp add: ar s)
  have "\<forall>i < length (col_widths allrows).
           col_widths allrows ! i = 2 + Max ((\<lambda>r. cell_width (children r ! i)) ` set allrows)"
  proof (intro allI impI)
    fix i assume i: "i < length (col_widths allrows)"
    then have i': "i < length (foldl maxw_step (maxw_step [] r) rows)"
      by (simp add: col_widths_def f)
    have "length (foldl maxw_step (maxw_step [] r) rows) \<le> length (maxw_step [] r)"
      unfolding foldl_maxw_step_length [OF ne rest] by simp
    with i' have ir: "i < length (children r)" by (simp add: s)
    show "col_widths allrows ! i = 2 + Max ((\<lambda>r. cell_width (children r ! i)) ` set allrows)"
      using i' ir foldl_maxw_step_nth [OF ne rest i'] unfolding col_widths_def f
      by (simp add: s ar)
  qed
  with len show ?thesis by blast
qed

text \<open>
  Claim C4, as stated, fails. In \<open>ragged_table\<close> the first row has two cells and
  the second has one: \<^verbatim>\<open>zip\<close> cuts \<^verbatim>\<open>maxw\<close> down to the shorter row, so one
  width is computed and the second column position, present in the first row,
  receives none.
\<close>

theorem col_widths_ragged_counterexample:
  "group_rows ragged_table ''thead'' @ group_rows ragged_table ''tbody'' @
     group_rows ragged_table ''tfoot'' = [tr [td ''aaaa'', td ''bbbbb''], tr [td ''c'']] \<and>
   length (children (tr [td ''aaaa'', td ''bbbbb''])) = 2 \<and>
   col_widths [tr [td ''aaaa'', td ''bbbbb''], tr [td ''c'']] = [6]"
  by (simp add: ragged_table_def table_eval)

text \<open>
  Claim C4, amended. For a table with at least one row, all of whose rows have
  at least one cell, the number of computed widths is the number of cells of the
  shortest row, and each computed width is 2 plus the maximum, over all rows of
  the three groups, of the trimmed cell-text length at that position (an absent
  or empty text counts 0). Column positions beyond the shortest row receive no
  width.
\<close>

theorem col_widths_shortest_row:
  assumes "allrows = group_rows table ''thead'' @ group_rows table ''tbody'' @
             group_rows table ''tfoot''"
    and "allrows \<noteq> []" and "\<forall>r \<in> set allrows. children r \<noteq> []"
  shows "length (col_widths allrows) = Min ((\<lambda>r. length (children r)) ` set allrows) \<and>
         (\<forall>i < length (col_widths allrows).
           col_widths allrows ! i =
             2 + Max ((\<lambda>r. cell_width (children r ! i)) ` set allrows))"
  using col_widths_min_max [OF assms(2,3)] .

theorem col_widths_shortest_row_witness:
  "[tr [td ''aaaa'', td ''bbbbb''], tr [td ''c'']] =
     group_rows ragged_table ''thead'' @ group_rows ragged_table ''tbody'' @
     group_rows ragged_table ''tfoot'' \<and>
   [tr [td ''aaaa'', td ''bbbbb''], tr [td ''c'']] \<noteq> [] \<and>
   children (tr [td ''aaaa'', td ''bbbbb'']) \<noteq> [] \<and> children (tr [td ''c'']) \<noteq> [] \<and>
   length (col_widths [tr [td ''aaaa'', td ''bbbbb''], tr [td ''c'']]) = 1 \<and>
   col_widths [tr [td ''aaaa'', td ''bbbbb''], tr [td ''c'']] ! 0 = 6"
proof -
  let ?rows = "[tr [td ''aaaa'', td ''bbbbb''], tr [td ''c'']]"
  have h1: "?rows = group_rows ragged_table ''thead'' @ group_rows ragged_table ''tbody'' @
     group_rows ragged_table ''tfoot''"
    by (simp add: ragged_table_def group_rows_def find_child_def)
  have h2: "?rows \<noteq> []" by simp
  have h3: "\<forall>r \<in> set ?rows. children r \<noteq> []" by (simp add: tr_def)
  have m: "Min ((\<lambda>r. length (children r)) ` set ?rows) = 1" by (simp add: tr_def)
  have x: "Max ((\<lambda>r. cell_width (children r ! 0)) ` set ?rows) = 4"
    by (simp add: tr_def td_def cell_width_def strip_def lstrip_def rstrip_def is_space_def)
  from col_widths_shortest_row [OF h1 h2 h3]
  have "length (col_widths ?rows) = 1 \<and> col_widths ?rows ! 0 = 6"
    unfolding m using x by simp
  moreover have "children (tr [td ''aaaa'', td ''bbbbb'']) \<noteq> [] \<and> children (tr [td ''c'']) \<noteq> []"
    by (simp add: tr_def)
  ultimately show ?thesis using h1 h2 by blast
qed

subsection \<open>Rows, alignment row and rules\<close>

lemma foldl_snoc_map: "foldl (\<lambda>ls x. ls @ [f x]) lines xs = lines @ map f xs"
  by (induction xs arbitrary: lines) simp_all

lemma emit_groups_aligned:
  "emit_groups maxw aligns rule True groups lines =
     lines @ concat (map (\<lambda>rows. map (row_text maxw aligns) rows @ [rule])
                      (filter (\<lambda>rows. rows \<noteq> []) groups))"
  by (induction groups arbitrary: lines) (simp_all add: foldl_snoc_map Let_def)

lemma emit_groups_first:
  "filter (\<lambda>rows. rows \<noteq> []) groups = g # rest \<Longrightarrow>
   emit_groups maxw aligns rule False groups lines =
     lines @ map (row_text maxw aligns) g @ [align_row maxw aligns, rule] @
       concat (map (\<lambda>rows. map (row_text maxw aligns) rows @ [rule]) rest)"
proof (induction groups arbitrary: lines)
  case Nil
  then show ?case by simp
next
  case (Cons rows groups)
  show ?case
  proof (cases "rows = []")
    case True
    with Cons show ?thesis by simp
  next
    case False
    with Cons.prems have "rows = g" "filter (\<lambda>rows. rows \<noteq> []) groups = rest" by simp_all
    with False show ?thesis
      by (simp add: foldl_snoc_map Let_def emit_groups_aligned)
  qed
qed

lemma foldl_aligns_step_Some:
  "\<exists>al. foldl aligns_step (Some a) rows = Some al"
  by (induction rows arbitrary: a) (simp_all add: aligns_step_def Let_def)

lemma table_aligns_rows:
  "allrows \<noteq> [] \<Longrightarrow> \<exists>aligns. table_aligns allrows = Inr aligns"
proof (cases allrows)
  case Nil
  assume "allrows \<noteq> []"
  with Nil show ?thesis by simp
next
  case (Cons r rows)
  obtain al where
    "foldl aligns_step (Some (map (\<lambda>x. attr_get x ''align'') (children r))) rows = Some al"
    using foldl_aligns_step_Some by blast
  then show ?thesis by (simp add: Cons table_aligns_def aligns_step_def Let_def)
qed

text \<open>
  The caption lines are produced exactly when the table has no \<^verbatim>\<open>name\<close>
  child or its first \<^verbatim>\<open>name\<close> child has text.
\<close>

lemma table_caption_name:
  "(\<exists>lines2. table_caption table lines = Inr lines2) \<longleftrightarrow>
   (find_child table ''name'' = None \<or>
    (\<exists>n s. find_child table ''name'' = Some n \<and> text_of n = Some s))"
  by (auto simp: table_caption_def rbind_def text_strip_def split: option.splits sum.splits)

text \<open>
  Claim C5, as stated, fails. \<open>empty_name_table\<close> has a non-empty body, but its
  \<^verbatim>\<open>name\<close> child has no text: \<^verbatim>\<open>name.text.strip()\<close> raises, and no rule,
  row or alignment row is emitted.
\<close>

theorem alignment_row_empty_name_counterexample:
  "filter (\<lambda>rows. rows \<noteq> [])
     [group_rows empty_name_table ''thead'', group_rows empty_name_table ''tbody'',
      group_rows empty_name_table ''tfoot''] = [[tr [td ''a'']]] \<and>
   cvt_table empty_name_table [] = Inl AttributeError"
  by (simp add: empty_name_table_def cvt_table_def table_caption_def rbind_def find_child_def
      group_rows_def text_strip_def)

text \<open>
  Claim C5, amended. When at least one of the three groups has a row and the
  caption lines are produced (the table has no \<^verbatim>\<open>name\<close> child, or that child
  has text), \<^verbatim>\<open>_cvt_table\<close> returns: the lines so far with the caption lines,
  a rule, the rows of the first non-empty group \<open>g\<close>, the alignment row, a rule,
  and then for every later non-empty group its rows and a rule. The alignment
  row occurs once, between the rows of \<open>g\<close> and the rule that closes \<open>g\<close>.
\<close>

theorem alignment_row_once:
  assumes "filter (\<lambda>rows. rows \<noteq> [])
             [group_rows table ''thead'', group_rows table ''tbody'',
              group_rows table ''tfoot''] = g # rest"
    and "allrows = group_rows table ''thead'' @ group_rows table ''tbody'' @
           group_rows table ''tfoot''"
    and "maxw = col_widths allrows" and "rule = table_rule maxw"
    and "table_caption table lines = Inr lines2"
  shows "\<exists>aligns. table_aligns allrows = Inr aligns \<and>
           cvt_table table lines =
             Inr (lines2 @ [rule] @ map (row_text maxw aligns) g @
                  [align_row maxw aligns, rule] @
                  concat (map (\<lambda>rows. map (row_text maxw aligns) rows @ [rule]) rest))"
proof -
  have "allrows \<noteq> []"
  proof
    assume "allrows = []"
    with assms(2) have "filter (\<lambda>rows. rows \<noteq> [])
             [group_rows table ''thead'', group_rows table ''tbody'',
              group_rows table ''tfoot''] = []"
      by simp
    with assms(1) show False by simp
  qed
  then obtain aligns where a: "table_aligns allrows = Inr aligns"
    using table_aligns_rows by blast
  have "cvt_table table lines =
          Inr (emit_groups maxw aligns rule False
                 [group_rows table ''thead'', group_rows table ''tbody'',
                  group_rows table ''tfoot'']
                 (lines2 @ [rule]))"
    using a assms(2-5) by (simp add: cvt_table_def rbind_def Let_def del: emit_groups.simps)
  then have "cvt_table table lines =
          Inr (lines2 @ [rule] @ map (row_text maxw aligns) g @ [align_row maxw aligns, rule] @
                  concat (map (\<lambda>rows. map (row_text maxw aligns) rows @ [rule]) rest))"
    by (simp only: emit_groups_first [OF assms(1)] append_assoc)
  with a show ?thesis by blast
qed

theorem alignment_row_once_witness:
  "filter (\<lambda>rows. rows \<noteq> [])
     [group_rows head_body_table ''thead'', group_rows head_body_table ''tbody'',
      group_rows head_body_table ''tfoot''] =
     [tr [td ''name'', td ''value'']] #
     [[tr [td ''alpha'', td ''1''], tr [td ''beta'', td ''22'']]] \<and>
   table_caption head_body_table [] = Inr [] \<and>
   cvt_table head_body_table [] = Inr
     [''|-------+-------|\<newline>'',
      ''| name  | value |\<newline>'',
      ''| <l>   | <l>   |\<newline>'',
      ''|-------+-------|\<newline>'',
      ''| alpha | 1     |\<newline>'',
      ''| beta  | 22    |\<newline>'',
      ''|-------+-------|\<newline>'']"
proof -
  let ?g = "[tr [td ''name'', td ''value'']]"
  let ?b = "[tr [td ''alpha'', td ''1''], tr [td ''beta'', td ''22'']]"
  have h1: "filter (\<lambda>rows. rows \<noteq> [])
     [group_rows head_body_table ''thead'', group_rows head_body_table ''tbody'',
      group_rows head_body_table ''tfoot''] = ?g # [?b]"
    by (simp add: head_body_table_def group_rows_def find_child_def)
  have h5: "table_caption head_body_table [] = Inr []"
    by (simp add: head_body_table_def table_eval)
  have rows: "group_rows head_body_table ''thead'' @ group_rows head_body_table ''tbody'' @
      group_rows head_body_table ''tfoot'' = ?g @ ?b"
    by (simp add: head_body_table_def group_rows_def find_child_def)
  have al: "table_aligns (?g @ ?b) = Inr [''l'', ''l'']"
    by (simp add: table_eval)
  have w: "col_widths (?g @ ?b) = [7, 7]"
    by (simp add: table_eval)
  from alignment_row_once [OF h1 refl refl refl h5]
  have "cvt_table head_body_table [] =
     Inr ([] @ [table_rule [7, 7]] @ map (row_text [7, 7] [''l'', ''l'']) ?g @
          [align_row [7, 7] [''l'', ''l''], table_rule [7, 7]] @
          concat (map (\<lambda>rows. map (row_text [7, 7] [''l'', ''l'']) rows @ [table_rule [7, 7]])
                   [?b]))"
    unfolding rows al w by simp
  then have "cvt_table head_body_table [] = Inr
     [''|-------+-------|\<newline>'',
      ''| name  | value |\<newline>'',
      ''| <l>   | <l>   |\<newline>'',
      ''|-------+-------|\<newline>'',
      ''| alpha | 1     |\<newline>'',
      ''| beta  | 22    |\<newline>'',
      ''|-------+-------|\<newline>'']"
    by (simp add: row_eval eval_nat_numeral)
  with h1 h5 show ?thesis by blast
qed

subsection \<open>Line lengths\<close>

text \<open>
  When every row has at least one cell, each row line is as long as the rule;
  the alignment row is longer by 5 minus the width for every column narrower
  than 5, the length of its marker with the two spaces around it.
\<close>

lemma length_format_str: "length (format_str a w s) = max w (length s)"
  by (auto simp: format_str_def Let_def)

lemma length_get_row_text:
  "length (get_row_text w al etext) = 1 + max w (length etext + 2)"
  by (simp add: get_row_text_def Let_def length_format_str)

lemma foldl_append_concat: "foldl (\<lambda>acc x. acc @ f x) acc xs = acc @ concat (map f xs)"
  by (induction xs arbitrary: acc) simp_all

lemma cell_text_width: "length (cell_text x) = cell_width x"
  by (simp add: cell_text_def cell_width_def strip_def rstrip_def lstrip_def split: option.splits)

lemma length_rule_body:
  "length (rule_body first ws) = sum_list ws + length ws - (if first \<and> ws \<noteq> [] then 1 else 0)"
  by (induction first ws rule: rule_body.induct) auto

lemma length_table_rule:
  "maxw \<noteq> [] \<Longrightarrow> length (table_rule maxw) = sum_list maxw + length maxw + 2"
  by (cases maxw) (simp_all add: table_rule_def length_rule_body)

lemma length_row_cells:
  "length ws \<le> length xs \<Longrightarrow> length als = length ws \<Longrightarrow>
   (\<forall>i < length ws. cell_width (xs ! i) + 2 \<le> ws ! i) \<Longrightarrow>
   length (concat (map (\<lambda>(width, align, x). get_row_text width align (cell_text x))
             (zip ws (zip als xs)))) = sum_list ws + length ws"
proof (induction ws arbitrary: als xs)
  case Nil
  then show ?case by simp
next
  case (Cons w ws)
  then obtain a als' x xs' where s: "als = a # als'" "xs = x # xs'"
    by (cases als; cases xs) auto
  have "\<forall>i < length ws. cell_width (xs' ! i) + 2 \<le> ws ! i"
    using Cons.prems(3) s by auto
  moreover have "cell_width x + 2 \<le> w" using Cons.prems(3) s by auto
  ultimately show ?case
    using Cons.IH [of xs' als'] Cons.prems(1,2) s
    by (simp add: length_get_row_text cell_text_width max_def)
qed

lemma length_row_text:
  assumes "length maxw \<le> length (children row)" and "length aligns = length maxw"
    and "\<forall>i < length maxw. cell_width (children row ! i) + 2 \<le> maxw ! i"
  shows "length (row_text maxw aligns row) = sum_list maxw + length maxw + 2"
proof -
  have "row_text maxw aligns row =
      concat (map (\<lambda>(width, align, x). get_row_text width align (cell_text x))
             (zip maxw (zip aligns (children row)))) @ ''|\<newline>''"
    unfolding row_text_def
    using foldl_append_concat [of "\<lambda>(width, align, x). get_row_text width align (cell_text x)" "[]"]
    by (simp add: case_prod_unfold)
  then show ?thesis using length_row_cells [OF assms] by simp
qed

lemma length_align_cells:
  "length als = length ws \<Longrightarrow> (\<forall>a \<in> set als. length a = 1) \<Longrightarrow>
   length (concat (map (\<lambda>(width, align). get_row_text width align (''<'' @ align @ ''>''))
             (zip ws als))) = sum_list (map (max 5) ws) + length ws"
proof (induction ws arbitrary: als)
  case Nil
  then show ?case by simp
next
  case (Cons w ws)
  then obtain a als' where s: "als = a # als'" by (cases als) auto
  with Cons.prems Cons.IH [of als'] show ?case
    by (simp add: length_get_row_text max.commute)
qed

lemma length_align_row:
  assumes "length aligns = length maxw" and "\<forall>a \<in> set aligns. length a = 1"
  shows "length (align_row maxw aligns) = sum_list (map (max 5) maxw) + length maxw + 2"
proof -
  have "align_row maxw aligns =
      concat (map (\<lambda>(width, align). get_row_text width align (''<'' @ align @ ''>''))
             (zip maxw aligns)) @ ''|\<newline>''"
    unfolding align_row_def
    using foldl_append_concat [of "\<lambda>(width, align). get_row_text width align (''<'' @ align @ ''>'')" "[]"]
    by (simp add: case_prod_unfold)
  then show ?thesis using length_align_cells [OF assms] by simp
qed

lemma length_align_char: "length (align_char x) = 1"
  by (simp add: align_char_def split: option.splits list.splits)

lemma length_aligns_step:
  "al \<noteq> [] \<Longrightarrow> aligns_step (Some al) row = Some al' \<Longrightarrow>
   length al' = min (length (children row)) (length al)"
  by (auto simp: aligns_step_def Let_def min.commute)

lemma foldl_aligns_maxw_length:
  "maxw \<noteq> [] \<Longrightarrow> length al = length maxw \<Longrightarrow> \<forall>r \<in> set rows. children r \<noteq> [] \<Longrightarrow>
   foldl aligns_step (Some al) rows = Some al' \<Longrightarrow>
   length al' = length (foldl maxw_step maxw rows)"
proof (induction rows arbitrary: maxw al)
  case Nil
  then show ?case by simp
next
  case (Cons r rows)
  have ne: "maxw_step maxw r \<noteq> []"
    using Cons.prems length_maxw_step [of maxw r] by (auto simp: min_def split: if_splits)
  have alne: "al \<noteq> []" using Cons.prems(1,2) by auto
  obtain al1 where s: "aligns_step (Some al) r = Some al1"
    by (cases "al = []") (simp_all add: aligns_step_def Let_def)
  have l: "length al1 = length (maxw_step maxw r)"
    using length_aligns_step [OF alne s] Cons.prems(1,2) by (simp add: length_maxw_step)
  from Cons.prems(4) s have f: "foldl aligns_step (Some al1) rows = Some al'" by simp
  from Cons.IH [OF ne l _ f] Cons.prems(3) show ?case by simp
qed

lemma table_aligns_length:
  assumes "allrows \<noteq> []" and "\<forall>r \<in> set allrows. children r \<noteq> []"
    and "table_aligns allrows = Inr aligns"
  shows "length aligns = length (col_widths allrows) \<and> (\<forall>a \<in> set aligns. length a = 1)"
proof -
  obtain r rows where ar: "allrows = r # rows" using assms(1) by (cases allrows) auto
  let ?a = "map (\<lambda>x. attr_get x ''align'') (children r)"
  have s1: "aligns_step None r = Some ?a" by (simp add: aligns_step_def)
  have s2: "maxw_step [] r = map cell_width (children r)" by (simp add: maxw_step_def)
  from assms(3) obtain al where al: "foldl aligns_step (Some ?a) rows = Some al"
    and a: "aligns = map align_char al"
    by (auto simp: table_aligns_def ar s1 split: option.splits)
  have ne: "map cell_width (children r) \<noteq> []" using assms(2) ar by simp
  have "length al = length (foldl maxw_step (map cell_width (children r)) rows)"
    using foldl_aligns_maxw_length [OF ne _ _ al] assms(2) ar by simp
  then show ?thesis by (auto simp: a col_widths_def ar s2 length_align_char)
qed

lemma sum_list_max5: "sum_list (map (max 5) ws) = sum_list ws + sum_list (map (\<lambda>w. 5 - w) ws)"
  for ws :: "nat list"
  by (induction ws) auto

lemma table_line_lengths:
  assumes "allrows \<noteq> []" and "\<forall>r \<in> set allrows. children r \<noteq> []"
    and "table_aligns allrows = Inr aligns" and "maxw = col_widths allrows"
  shows "\<forall>r \<in> set allrows. length (row_text maxw aligns r) = length (table_rule maxw)"
    and "length (align_row maxw aligns) =
           length (table_rule maxw) + sum_list (map (\<lambda>w. 5 - w) maxw)"
proof -
  note mm = col_widths_min_max [OF assms(1,2)]
  note al = table_aligns_length [OF assms(1-3)]
  have pos: "0 < Min ((\<lambda>r. length (children r)) ` set allrows)"
    using assms(1,2) by (subst Min_gr_iff) auto
  with mm have ne: "maxw \<noteq> []" by (auto simp: assms(4))
  show "\<forall>r \<in> set allrows. length (row_text maxw aligns r) = length (table_rule maxw)"
  proof
    fix r assume r: "r \<in> set allrows"
    have l: "length maxw \<le> length (children r)"
      using mm r by (simp add: assms(4))
    have w: "\<forall>i < length maxw. cell_width (children r ! i) + 2 \<le> maxw ! i"
    proof (intro allI impI)
      fix i assume "i < length maxw"
      with mm have "maxw ! i = 2 + Max ((\<lambda>r. cell_width (children r ! i)) ` set allrows)"
        by (simp add: assms(4))
      moreover have "cell_width (children r ! i) \<le> Max ((\<lambda>r. cell_width (children r ! i)) ` set allrows)"
        using r by (intro Max_ge) auto
      ultimately show "cell_width (children r ! i) + 2 \<le> maxw ! i" by simp
    qed
    from length_row_text [OF l _ w] al show "length (row_text maxw aligns r) = length (table_rule maxw)"
      by (simp add: assms(4) [symmetric] length_table_rule [OF ne])
  qed
  from al have "length aligns = length maxw" "\<forall>a \<in> set aligns. length a = 1"
    by (simp_all add: assms(4))
  from length_align_row [OF this] show "length (align_row maxw aligns) =
           length (table_rule maxw) + sum_list (map (\<lambda>w. 5 - w) maxw)"
    by (simp add: length_table_rule [OF ne] sum_list_max5)
qed

text \<open>
  Claim C3 on the table of the specification (a, bb over ccc, d). The widths are
  5 and 4, the rule and the two rows have 13 characters, and the alignment row
  has 14: its cell \<^verbatim>\<open>" <l> "\<close> has five characters and is not cut to the width
  4 of the second column. By \<open>table_line_lengths\<close> the rows and the rule always
  agree, and the alignment row agrees with them only when no column is narrower
  than 5.
\<close>

theorem spec_table_alignment_row_longer:
  "cvt_table spec_table [] = Inr
     [''|-----+----|\<newline>'',
      ''| a   | bb |\<newline>'',
      ''| ccc | d  |\<newline>'',
      ''| <l> | <l> |\<newline>'',
      ''|-----+----|\<newline>''] \<and>
   map length
     [''|-----+----|\<newline>'',
      ''| a   | bb |\<newline>'',
      ''| ccc | d  |\<newline>'',
      ''| <l> | <l> |\<newline>'',
      ''|-----+----|\<newline>''] = [13, 13, 13, 14, 13]"
  by (simp add: spec_table_def table_eval)

subsection \<open>Section headings\<close>

lemmas str_eval = strip_def lstrip_def rstrip_def is_space_def

lemmas gather_eval = gather_section_refs_def findall_desc_def note_section_def note_xref_def
  attr_get_d_def attr_get_def Let_def

lemma cvt_mid_back_section:
  "tag e = ''section'' \<Longrightarrow>
   cvt_mid_back sr fill e lines mid level =
     (case section_heading sr e lines level of Inl err \<Rightarrow> Inl err
      | Inr lines1 \<Rightarrow> cvt_section_children sr fill (children e) lines1 mid (level + 1))"
  by (cases e) (auto split: sum.splits)

text \<open>
  For an anchor that trimming leaves unchanged, the heading is followed by the
  property block with that anchor when its count is above zero, and by the
  blank line alone when the anchor is empty or its count is zero.
\<close>

lemma section_property_block_unpadded:
  assumes "tag e = ''section''" and "section_title e = Inr title" and "title \<noteq> []"
    and "anchor = attr_get_d e ''anchor''" and "strip anchor = anchor"
    and "heading = ''\<newline>'' @ replicate (level + 1) (CHR ''*'') @ '' '' @ title @ ''\<newline>''"
  shows "(anchor \<noteq> [] \<and> (\<exists>n. sr anchor = Some n \<and> 0 < n) \<longrightarrow>
           cvt_mid_back sr fill e lines mid level =
             cvt_section_children sr fill (children e)
               (lines @ [heading, '':PROPERTIES:\<newline>'', '':CUSTOM_ID: '' @ anchor @ ''\<newline>'',
                         '':END:\<newline>'', ''\<newline>'']) mid (level + 1)) \<and>
         (anchor = [] \<or> sr anchor = Some 0 \<longrightarrow>
           cvt_mid_back sr fill e lines mid level =
             cvt_section_children sr fill (children e) (lines @ [heading, ''\<newline>''])
               mid (level + 1))"
  using assms by (auto simp: cvt_mid_back_section section_heading_def rbind_def Let_def)

lemma section_sec_x_referenced:
  "cvt_mid_back [''sec-x'' \<mapsto> 1] (\<lambda>indent s. s) sec_x [] True 0 =
     Inr [''\<newline>* Intro\<newline>'', '':PROPERTIES:\<newline>'', '':CUSTOM_ID: sec-x\<newline>'',
          '':END:\<newline>'', ''\<newline>''] \<and>
   cvt_mid_back [''sec-x'' \<mapsto> 0] (\<lambda>indent s. s) sec_x [] True 0 =
     Inr [''\<newline>* Intro\<newline>'', ''\<newline>'']"
proof -
  have t: "tag sec_x = ''section''" by (simp add: sec_x_def)
  have ti: "section_title sec_x = Inr ''Intro''"
    by (simp add: sec_x_def section_title_def attr_get_def str_eval)
  have an: "''sec-x'' = attr_get_d sec_x ''anchor''"
    by (simp add: sec_x_def attr_get_d_def attr_get_def)
  have st: "strip ''sec-x'' = ''sec-x''" by (simp add: str_eval)
  have ch: "children sec_x = []" by (simp add: sec_x_def)
  have ne: "''Intro'' \<noteq> []" by simp
  from section_property_block_unpadded [OF t ti ne an st refl,
         of "[''sec-x'' \<mapsto> 1]" "\<lambda>indent s. s" "[]" True 0]
       section_property_block_unpadded [OF t ti ne an st refl,
         of "[''sec-x'' \<mapsto> 0]" "\<lambda>indent s. s" "[]" True 0]
  show ?thesis by (simp add: ch)
qed

text \<open>
  Claim C1 on \<open>section_b\<close>, a section with a title and the non-empty anchor
  \<^verbatim>\<open>"a "\<close>. The collector and the \<^verbatim>\<open>xref\<close> branch keep the anchor as written,
  the heading code trims it and looks up \<^verbatim>\<open>"a"\<close>. In \<open>padded_doc\<close> the count
  of \<^verbatim>\<open>"a "\<close> is 1, that of \<^verbatim>\<open>"a"\<close> is 0, and the heading is followed by the
  blank line with no property block. In \<open>both_referenced_doc\<close> the count of
  \<^verbatim>\<open>"a "\<close> is 1 again and the custom identifier emitted is \<^verbatim>\<open>a\<close>, that of the
  other section, not the anchor.
\<close>

theorem section_padded_anchor_loses_identifier:
  "attr_get section_b ''anchor'' = Some ''a '' \<and>
   section_title section_b = Inr ''B'' \<and>
   gather_section_refs padded_doc Map.empty ''a '' = Some 1 \<and>
   section_heading (gather_section_refs padded_doc Map.empty) section_b [] 0 =
     Inr [''\<newline>* B\<newline>'', ''\<newline>''] \<and>
   gather_section_refs both_referenced_doc Map.empty ''a '' = Some 1 \<and>
   section_heading (gather_section_refs both_referenced_doc Map.empty) section_b [] 0 =
     Inr [''\<newline>* B\<newline>'', '':PROPERTIES:\<newline>'', '':CUSTOM_ID: a\<newline>'', '':END:\<newline>'',
          ''\<newline>'']"
  by (simp add: padded_doc_def both_referenced_doc_def section_b_def section_heading_def
      section_title_def rbind_def gather_eval str_eval find_child_def)

text \<open>
  Every non-empty section anchor of the tree is a key of the table the collector
  returns, and a lookup under an anchor that trimming leaves unchanged does not
  raise.
\<close>

lemma section_anchor_in_table:
  assumes "e \<in> set (findall_desc root ''section'')" and "attr_get_d e ''anchor'' \<noteq> []"
  shows "attr_get_d e ''anchor'' \<in> dom (gather_section_refs root sr)"
  using assms by (auto simp: dom_gather anchors_def)

lemma section_heading_lookup:
  assumes "e \<in> set (findall_desc root ''section'')"
    and "strip (attr_get_d e ''anchor'') = attr_get_d e ''anchor''"
  shows "section_heading (gather_section_refs root sr) e lines level \<noteq> Inl KeyError"
proof (cases "attr_get_d e ''anchor'' = []")
  case True
  with assms(2) show ?thesis
    by (auto simp: section_heading_def section_title_def text_strip_def rbind_def Let_def
             split: sum.splits option.splits if_splits)
next
  case False
  from section_anchor_in_table [OF assms(1) False]
  obtain n where "gather_section_refs root sr (attr_get_d e ''anchor'') = Some n" by blast
  with assms(2) show ?thesis
    by (auto simp: section_heading_def section_title_def text_strip_def rbind_def Let_def
             split: sum.splits option.splits if_splits)
qed

text \<open>
  Claim C9 on \<open>padded_anchor_doc\<close>. The collector stores the key \<^verbatim>\<open>"a "\<close>; the
  heading code trims the anchor to \<^verbatim>\<open>"a"\<close> before the lookup, and the
  conversion of the document, collector first, ends in \<^verbatim>\<open>KeyError\<close>.
\<close>

theorem padded_anchor_lookup_raises:
  "convert_xml_to_markdown set_iter fill padded_anchor_doc = Inl KeyError"
  by (simp add: convert_xml_to_markdown_def top_level_def top_level_child_def cvt_rfc_attr_def
      padded_anchor_doc_def rbind_def section_heading_def section_title_def gather_eval str_eval
      find_child_def)

subsection \<open>Cross-references and paragraphs\<close>

lemma cvt_mid_back_xref:
  "tag e = ''xref'' \<Longrightarrow>
   cvt_mid_back sr fill e lines mid level =
     (case xref_link sr e lines of Inl err \<Rightarrow> Inl err
      | Inr lines1 \<Rightarrow> cvt_children sr fill (children e) lines1 mid level)"
  by (cases e) (auto split: sum.splits)

text \<open>
  Claim C2. For an \<^verbatim>\<open>xref\<close> with a non-empty target: when the target is a key
  of the table, whatever its count \<open>n\<close>, the line appended is the internal link
  \<^verbatim>\<open>[[#target]]\<close>; when it is not a key, the line appended is \<^verbatim>\<open>[[target]]\<close>.
  The children of the \<^verbatim>\<open>xref\<close> are converted after the link.
\<close>

theorem xref_link_by_table_key:
  assumes "tag e = ''xref''" and "attr_get e ''target'' = Some target" and "target \<noteq> []"
  shows "(\<forall>n. sr target = Some n \<longrightarrow>
            cvt_mid_back sr fill e lines mid level =
              cvt_children sr fill (children e) (lines @ [''[[#'' @ target @ '']]'']) mid level) \<and>
         (sr target = None \<longrightarrow>
            cvt_mid_back sr fill e lines mid level =
              cvt_children sr fill (children e) (lines @ [''[['' @ target @ '']]'']) mid level)"
  using assms by (auto simp: cvt_mid_back_xref xref_link_def)

theorem xref_link_by_table_key_witness:
  "cvt_mid_back [''sec-x'' \<mapsto> 0] (\<lambda>indent s. s) xref_x [] True 0 = Inr [''[[#sec-x]]''] \<and>
   cvt_mid_back Map.empty (\<lambda>indent s. s) xref_x [] True 0 = Inr [''[[sec-x]]'']"
proof -
  have t: "tag xref_x = ''xref''" by (simp add: xref_x_def)
  have tg: "attr_get xref_x ''target'' = Some ''sec-x''" by (simp add: xref_x_def attr_get_def)
  have ne: "''sec-x'' \<noteq> []" by simp
  have ch: "children xref_x = []" by (simp add: xref_x_def)
  from xref_link_by_table_key [OF t tg ne, of "[''sec-x'' \<mapsto> 0]" "\<lambda>indent s. s" "[]" True 0]
       xref_link_by_table_key [OF t tg ne, of Map.empty "\<lambda>indent s. s" "[]" True 0]
  show ?thesis by (simp add: ch)
qed

text \<open>
  Claim C10. A \<^verbatim>\<open>t\<close> element without text of its own makes the conversion
  raise \<^verbatim>\<open>TypeError\<close>, from \<^verbatim>\<open>_unindent\<close> applied to \<^verbatim>\<open>None\<close>, whatever
  its children are; so a \<^verbatim>\<open>t\<close> element is converted only if its text is
  present. \<open>para_xref\<close>, a paragraph that begins with an \<^verbatim>\<open>xref\<close>, is such an
  input.
\<close>

theorem paragraph_without_text_raises:
  assumes "tag e = ''t''" and "text_of e = None"
  shows "cvt_mid_back sr fill e lines mid level = Inl TypeError"
  using assms by (cases e) (auto split: sum.splits)

theorem paragraph_without_text_raises_witness:
  "tag para_xref = ''t'' \<and> text_of para_xref = None \<and>
   cvt_mid_back Map.empty (\<lambda>indent s. s) para_xref [] True 1 = Inl TypeError"
proof -
  have t: "tag para_xref = ''t''" and x: "text_of para_xref = None"
    by (simp_all add: para_xref_def)
  from paragraph_without_text_raises [OF t x] t x show ?thesis by simp
qed

subsection \<open>Bibliographic references\<close>

text \<open>
  A reference without \<^verbatim>\<open>front\<close>, and a \<^verbatim>\<open>front\<close> without \<^verbatim>\<open>title\<close> and
  \<^verbatim>\<open>author\<close>, are converted; an author without organization is not.
\<close>

lemma include_heading_reference: "tag child = ''reference'' \<Longrightarrow> include_heading child = None"
  by (simp add: include_heading_def)

lemma cvt_reference_without_front:
  assumes "tag child = ''reference''" and "attr_get child ''anchor'' = Some anchor"
    and "find_child child ''front'' = None"
  shows "cvt_reference child lines =
     Inr (lines @ [''** '' @ anchor @ ''\<newline>'', '':PROPERTIES:\<newline>''] @
          (case attr_get child ''target'' of None \<Rightarrow> []
           | Some target \<Rightarrow> ['':REF_TARGET: '' @ strip target @ ''\<newline>'']) @
          ['':END:\<newline>''])"
  using assms
  by (simp add: cvt_reference_def include_heading_reference rbind_def Let_def split: option.splits)

lemma cvt_front_ref_empty:
  "find_child front ''title'' = None \<Longrightarrow> find_child front ''author'' = None \<Longrightarrow>
   cvt_front_ref front lines = Inr lines"
  by (simp add: cvt_front_ref_def rbind_def)

lemma cvt_front_ref_author_without_organization:
  assumes "find_child front ''title'' = None" and "find_child front ''author'' = Some author"
    and "find_child author ''organization'' = None"
  shows "cvt_front_ref front lines = Inl AttributeError"
  using assms by (simp add: cvt_front_ref_def rbind_def)

text \<open>
  Claim C6 on \<open>ref_no_org\<close>: a reference with the anchor X whose front has an
  author without an \<^verbatim>\<open>organization\<close> child. \<^verbatim>\<open>_cvt_front_ref\<close> reads
  \<^verbatim>\<open>org.text\<close> with \<^verbatim>\<open>org\<close> being \<^verbatim>\<open>None\<close>, and the conversion of the
  entry raises \<^verbatim>\<open>AttributeError\<close>.
\<close>

theorem reference_author_without_organization_raises:
  "cvt_reference ref_no_org [] = Inl AttributeError"
  by (simp add: ref_no_org_def cvt_reference_def include_heading_def cvt_front_ref_def
      attr_get_def find_child_def rbind_def)

subsection \<open>Keywords\<close>

lemma front_author_keywords:
  "front_author e st = Inr st1 \<Longrightarrow> keyword_set (fst st1) = keyword_set (fst st)"
  by (cases st)
     (auto simp: front_author_def rbind_def Let_def
           split: sum.splits option.splits if_splits prod.splits)

lemma front_keywords_collected:
  "convert_xml_front fill e st level = Inr st1 \<Longrightarrow>
     keyword_set (fst st1) = keyword_set (fst st) \<union> set (front_keywords e)"
  "convert_front_children fill cs st level = Inr st1 \<Longrightarrow>
     keyword_set (fst st1) = keyword_set (fst st) \<union> set (front_keywords_list cs)"
proof (induction fill e st level and fill cs st level arbitrary: st1 and st1
    rule: convert_xml_front_convert_front_children.induct)
  case (1 fill t a x y cs glb lines level)
  show ?case
  proof (cases "t \<in> set [''title'', ''author'', ''abstract'', ''area'', ''workgroup'', ''keyword'']")
    case True
    with "1.prems" show ?thesis
      by (auto simp: rbind_def text_strip_def dest: front_author_keywords
               split: sum.splits option.splits if_splits)
  next
    case False
    with "1.prems" have "convert_front_children fill cs (glb, lines) (level + 1) = Inr st1"
      by simp
    from "1.IH" [OF _ _ _ _ _ _ this] False show ?thesis by simp
  qed
next
  case (2 fill st level)
  then show ?case by simp
next
  case (3 fill child rest st level)
  from "3.prems" obtain st' where
    a: "convert_xml_front fill child st level = Inr st'" and
    b: "convert_front_children fill rest st' level = Inr st1"
    by (auto split: sum.splits)
  from "3.IH"(1) [OF a] "3.IH"(2) [OF a b] show ?case by auto
qed

text \<open>
  Claim C7, as stated, fails. The front matter \<open>front_ab\<close> inserts the keywords a
  and then b. A Python set does not keep the insertion order; when the
  interpreter iterates over it as b, a, the line lists a before b, which is the
  insertion order and not its reverse.
\<close>

theorem keywords_iteration_order_counterexample:
  \<open>front_keywords_list (children front_ab) = [''a'', ''b''] \<and>
   slot_order [''b'', ''a''] {''a'', ''b''} = [''b'', ''a''] \<and>
   top_level_child (slot_order [''b'', ''a'']) (\<lambda>indent s. s) front_ab (glb0, []) =
     Inr (glb0\<lparr>keyword_set := {''a'', ''b''}\<rparr>, [''#+RFC_KEYWORDS: ("a" "b")\<newline>''])\<close>
  by (simp add: front_ab_def kw_def glb0_def top_level_child_def rbind_def text_strip_def
      strip_def lstrip_def rstrip_def is_space_def slot_order_def keywords_line_def dq_def
      insert_commute)

text \<open>
  Claim C7, amended. When the children of a \<^verbatim>\<open>front\<close> element are converted
  without error, starting from an empty keyword set, and the walk reaches at
  least one \<^verbatim>\<open>keyword\<close> element with text, then the keyword set holds exactly
  the trimmed keyword texts, and exactly one line is appended after the lines of
  the front matter: the keywords directive, whose value is the parenthesized
  list of the quoted members of the set, separated by spaces, in the reverse of
  the order in which the set is iterated.
\<close>

theorem keywords_line_reverse_iteration:
  assumes "tag e = ''front''"
    and "convert_front_children fill (children e) (glb, lines) 0 = Inr (glb1, lines1)"
    and "keyword_set glb = {}"
    and "front_keywords_list (children e) \<noteq> []"
    and "set (set_iter (keyword_set glb1)) = keyword_set glb1"
  shows "keyword_set glb1 = set (front_keywords_list (children e)) \<and>
         top_level_child set_iter fill e (glb, lines) =
           Inr (glb1, lines1 @
             [''#+RFC_KEYWORDS: ('' @
              join '' '' (rev (map (\<lambda>x. dq @ x @ dq) (set_iter (keyword_set glb1)))) @
              '')\<newline>''])"
proof -
  have k: "keyword_set glb1 = set (front_keywords_list (children e))"
    using front_keywords_collected(2) [OF assms(2)] assms(3) by simp
  with assms(4) have "keyword_set glb1 \<noteq> {}" by simp
  with assms(5) have "set_iter (keyword_set glb1) \<noteq> []" by auto
  with assms(1,2) k show ?thesis
    by (simp add: top_level_child_def rbind_def keywords_line_def Let_def)
qed

theorem keywords_line_reverse_iteration_witness:
  \<open>top_level_child (slot_order [''a'', ''b'']) (\<lambda>indent s. s) front_ab (glb0, []) =
     Inr (glb0\<lparr>keyword_set := {''a'', ''b''}\<rparr>, [''#+RFC_KEYWORDS: ("b" "a")\<newline>''])\<close>
proof -
  let ?g = "glb0\<lparr>keyword_set := {''a'', ''b''}\<rparr>"
  have t: "tag front_ab = ''front''" by (simp add: front_ab_def)
  have c: "convert_front_children (\<lambda>indent s. s) (children front_ab) (glb0, []) 0 = Inr (?g, [])"
    by (simp add: front_ab_def kw_def glb0_def rbind_def text_strip_def str_eval insert_commute)
  have e: "keyword_set glb0 = {}" by (simp add: glb0_def)
  have k: "front_keywords_list (children front_ab) \<noteq> []"
    by (simp add: front_ab_def kw_def)
  have i: "set (slot_order [''a'', ''b''] (keyword_set ?g)) = keyword_set ?g"
    by (auto simp: slot_order_def)
  have o: "slot_order [''a'', ''b''] (keyword_set ?g) = [''a'', ''b'']"
    by (simp add: slot_order_def)
  from keywords_line_reverse_iteration [where set_iter = "slot_order [''a'', ''b'']", OF t c e k i]
  show ?thesis
    unfolding o by (simp add: dq_def)
qed

end
